theory Spec2Isabelle
  imports Main "HOL-Library.Multiset" "HOL-Library.AList"
begin

section \<open>Python values shared by the models\<close>

text \<open>
  Every \<^verbatim>\<open>raise\<close> of the modelled functions is a value of \<open>py_error\<close>; a function that can
  raise returns \<open>py_error + 'a\<close> with \<open>Inl\<close> for the exception. The two \<^verbatim>\<open>ValueError\<close>s of
  \<^verbatim>\<open>PlaceholderData.__init__\<close> are told apart by \<open>value_error\<close>; the second one carries the
  offending role.
\<close>

datatype value_error = SlotNotDefined | InvalidRole string

datatype py_error =
    KeyError
  | ValueError value_error
  | RuntimeError
  | TypeError
  | DoesNotExist
  | MultipleObjectsReturned

text \<open>
  A Python dictionary whose iteration order matters (\<^verbatim>\<open>OrderedDict\<close>, or \<^verbatim>\<open>dict(pairs)\<close>) is an
  association list with pairwise different keys in insertion order. \<open>AList.update\<close> is item
  assignment: the value of a key already present is replaced where it stands, a new key goes to the
  end. \<open>py_dict\<close> is the constructor from a sequence of pairs.
\<close>

definition py_dict :: "('k \<times> 'v) list \<Rightarrow> ('k \<times> 'v) list" where
  "py_dict ps = foldl (\<lambda>d (k, v). AList.update k v d) [] ps"

definition dict_keys :: "('k \<times> 'v) list \<Rightarrow> 'k list" where
  "dict_keys d = map fst d"

text \<open>Truth value of \<^verbatim>\<open>None\<close> or a string: \<^verbatim>\<open>None\<close> and \<^verbatim>\<open>''\<close> are falsy.\<close>

fun truthy :: "string option \<Rightarrow> bool" where
  "truthy None = False"
| "truthy (Some s) = (s \<noteq> [])"

section \<open>\<^verbatim>\<open>PlaceholderData\<close> (models/__init__.py)\<close>

text \<open>
  The constants \<^verbatim>\<open>Placeholder.MAIN\<close>, \<^verbatim>\<open>Placeholder.SIDEBAR\<close>, \<^verbatim>\<open>Placeholder.RELATED\<close> and the
  choices tuple \<^verbatim>\<open>Placeholder.ROLES\<close> are declared in \<^verbatim>\<open>models/db.py\<close>; the functions below take
  them as the parameter \<open>P\<close>.
\<close>

record placeholder_roles =
  MAIN :: string
  SIDEBAR :: string
  RELATED :: string
  ROLES :: "(string \<times> string) list"

text \<open>\<^verbatim>\<open>_ALLOWED_ROLES = list(dict(Placeholder.ROLES).keys())\<close>\<close>

definition ALLOWED_ROLES :: "placeholder_roles \<Rightarrow> string list" where
  "ALLOWED_ROLES P = dict_keys (py_dict (ROLES P))"

definition ROLE_ALIASES :: "placeholder_roles \<Rightarrow> (string \<times> string) list" where
  "ROLE_ALIASES P = [(''main'', MAIN P), (''sidebar'', SIDEBAR P), (''related'', RELATED P)]"

record placeholder_data =
  pd_slot :: string
  pd_title :: string
  pd_role :: string
  pd_fallback_language :: "string option"

text \<open>\<^verbatim>\<open>ROLE_ALIASES.get(role, role or Placeholder.MAIN)\<close>; the key \<^verbatim>\<open>None\<close> is in no dictionary.\<close>

definition lookup_role :: "placeholder_roles \<Rightarrow> string option \<Rightarrow> string" where
  "lookup_role P role =
     (case (case role of None \<Rightarrow> None | Some r \<Rightarrow> map_of (ROLE_ALIASES P) r) of
        Some alias \<Rightarrow> alias
      | None \<Rightarrow> (case role of None \<Rightarrow> MAIN P | Some r \<Rightarrow> if r = [] then MAIN P else r))"

definition PlaceholderData_init ::
  "placeholder_roles \<Rightarrow> string option \<Rightarrow> string option \<Rightarrow> string option \<Rightarrow> string option
     \<Rightarrow> py_error + placeholder_data" where
  "PlaceholderData_init P slot title role fallback_language =
     (case slot of
        None \<Rightarrow> Inl (ValueError SlotNotDefined)
      | Some s \<Rightarrow>
          if s = [] then Inl (ValueError SlotNotDefined)
          else
            let self_title = (case title of None \<Rightarrow> s | Some t \<Rightarrow> if t = [] then s else t);
                self_role = lookup_role P role;
                self_fallback = (if truthy fallback_language then fallback_language else None)
            in if self_role \<notin> set (ALLOWED_ROLES P) then Inl (ValueError (InvalidRole self_role))
               else Inr \<lparr>pd_slot = s, pd_title = self_title, pd_role = self_role,
                         pd_fallback_language = self_fallback\<rparr>)"

text \<open>
  The role the claim describes, in its own words: the three aliases are resolved, a missing
  (\<^verbatim>\<open>None\<close> or empty) role becomes \<^verbatim>\<open>Placeholder.MAIN\<close>, any other role stands for itself.
\<close>

definition resolved_role :: "placeholder_roles \<Rightarrow> string option \<Rightarrow> string" where
  "resolved_role P role =
     (if role = Some ''main'' then MAIN P
      else if role = Some ''sidebar'' then SIDEBAR P
      else if role = Some ''related'' then RELATED P
      else if truthy role then the role
      else MAIN P)"

text \<open>The role constants of the upstream \<^verbatim>\<open>Placeholder\<close> model, for concrete evaluations.\<close>

definition upstream_roles :: placeholder_roles where
  "upstream_roles =
     \<lparr>MAIN = ''m'', SIDEBAR = ''s'', RELATED = ''r'',
      ROLES = [(''m'', ''Main content''), (''s'', ''Sidebar content''), (''r'', ''Related content'')]\<rparr>"

section \<open>Media objects (models/__init__.py)\<close>

text \<open>
  A media object has a class, a \<^verbatim>\<open>_css\<close> dictionary (medium to list of paths) and a \<^verbatim>\<open>_js\<close> list of
  paths. The code compares objects by identity (\<^verbatim>\<open>is ImmutableMedia.empty_instance\<close>), builds new
  objects beside the old ones, and \<^verbatim>\<open>other._css.copy()\<close> makes a new dictionary that holds the
  path lists of the old one. So the objects live in a heap, and so do the path lists of the
  \<^verbatim>\<open>_css\<close> dictionaries: an object is stored as its class, its \<^verbatim>\<open>_css\<close> dictionary from media to
  references of path lists, and its \<^verbatim>\<open>_js\<close> list. Every object has a \<^verbatim>\<open>_css\<close> dictionary and a
  \<^verbatim>\<open>_js\<close> list of its own (no function here hands one of them to a second object); a path list
  can belong to several dictionaries. \<open>Obj a\<close> is the object allocated as number \<open>a\<close>.
  The shared \<^verbatim>\<open>ImmutableMedia.empty_instance\<close> is a reference of its own: it is built once at import
  time by \<^verbatim>\<open>ImmutableMedia()\<close> with an empty \<^verbatim>\<open>_css\<close> and \<^verbatim>\<open>_js\<close>, and no function of the repository
  assigns to it.
\<close>

datatype media_class = Media | ImmutableMedia

type_synonym css_dict = "(string \<times> string list) list"

type_synonym list_ref = nat

record media_rep =
  rep_cls :: media_class
  rep_css :: "(string \<times> list_ref) list"
  rep_js :: "string list"

record media_heap =
  media_objects :: "media_rep list"
  path_lists :: "string list list"

datatype media_ref = empty_instance | Obj nat

definition empty_heap :: media_heap where
  "empty_heap = \<lparr>media_objects = [], path_lists = []\<rparr>"

text \<open>
  What an object holds, read through the references: its class, the contents of \<^verbatim>\<open>_css\<close> and
  the contents of \<^verbatim>\<open>_js\<close>.
\<close>

record media_obj =
  media_cls :: media_class
  media_css :: css_dict
  media_js :: "string list"

definition css_contents :: "media_heap \<Rightarrow> (string \<times> list_ref) list \<Rightarrow> css_dict" where
  "css_contents h d = map (\<lambda>(medium, l). (medium, path_lists h ! l)) d"

definition deref :: "media_heap \<Rightarrow> media_ref \<Rightarrow> media_obj" where
  "deref h r =
     (case r of
        empty_instance \<Rightarrow> \<lparr>media_cls = ImmutableMedia, media_css = [], media_js = []\<rparr>
      | Obj a \<Rightarrow>
          \<lparr>media_cls = rep_cls (media_objects h ! a),
           media_css = css_contents h (rep_css (media_objects h ! a)),
           media_js = rep_js (media_objects h ! a)\<rparr>)"

definition valid_ref :: "media_heap \<Rightarrow> media_ref \<Rightarrow> bool" where
  "valid_ref h r = (case r of empty_instance \<Rightarrow> True | Obj a \<Rightarrow> a < length (media_objects h))"

definition alloc :: "media_heap \<Rightarrow> media_rep \<Rightarrow> media_ref \<times> media_heap" where
  "alloc h obj = (Obj (length (media_objects h)), h\<lparr>media_objects := media_objects h @ [obj]\<rparr>)"

subsection \<open>The base class \<^verbatim>\<open>django.forms.Media\<close>\<close>

text \<open>
  \<^verbatim>\<open>ImmutableMedia\<close> derives from the framework's \<^verbatim>\<open>Media\<close>, calls its \<^verbatim>\<open>add_css\<close> and \<^verbatim>\<open>add_js\<close> in
  \<^verbatim>\<open>__init__\<close>, and \<^verbatim>\<open>_insert_media\<close> evaluates \<^verbatim>\<open>Media() + media\<close>. These are the methods of the
  Django 1.x line the module is written for (the line that still has \<^verbatim>\<open>add_css\<close> and \<^verbatim>\<open>add_js\<close>).
  \<^verbatim>\<open>add_js\<close> appends to \<^verbatim>\<open>self._js\<close> every path that is not yet in it. \<^verbatim>\<open>add_css\<close> does, for every
  medium and path of the data,
  \<^verbatim>\<open>if not self._css.get(medium) or path not in self._css[medium]:
        self._css.setdefault(medium, []).append(path)\<close>:
  a medium the dictionary does not have gets a new path list, the path list of a medium it has
  is appended to where it is, so every dictionary that holds this list sees the path. Both
  methods do nothing for falsy data. \<^verbatim>\<open>__add__\<close> builds a new \<^verbatim>\<open>Media()\<close> and adds to it the CSS of
  both operands, then the JS of both. The data of a call is read as it is when the call starts.
\<close>

fun add_js_paths :: "string list \<Rightarrow> string list \<Rightarrow> string list" where
  "add_js_paths js [] = js"
| "add_js_paths js (path # data) =
     add_js_paths (if path \<in> set js then js else js @ [path]) data"

definition Media_add_js :: "media_heap \<Rightarrow> media_ref \<Rightarrow> string list option \<Rightarrow> media_heap" where
  "Media_add_js h self data =
     (case self of
        empty_instance \<Rightarrow> h
      | Obj a \<Rightarrow>
          (case data of
             None \<Rightarrow> h
           | Some paths \<Rightarrow>
               h\<lparr>media_objects := (media_objects h)
                    [a := (media_objects h ! a)
                            \<lparr>rep_js := add_js_paths (rep_js (media_objects h ! a)) paths\<rparr>]\<rparr>))"

definition css_add_path :: "nat \<Rightarrow> string \<Rightarrow> media_heap \<Rightarrow> string \<Rightarrow> media_heap" where
  "css_add_path a medium h path =
     (case map_of (rep_css (media_objects h ! a)) medium of
        None \<Rightarrow>
          h\<lparr>media_objects := (media_objects h)
               [a := (media_objects h ! a)
                       \<lparr>rep_css := AList.update medium (length (path_lists h))
                                     (rep_css (media_objects h ! a))\<rparr>],
            path_lists := path_lists h @ [[path]]\<rparr>
      | Some l \<Rightarrow>
          if path_lists h ! l = [] \<or> path \<notin> set (path_lists h ! l)
          then h\<lparr>path_lists := (path_lists h)[l := path_lists h ! l @ [path]]\<rparr>
          else h)"

fun add_css_items :: "nat \<Rightarrow> media_heap \<Rightarrow> css_dict \<Rightarrow> media_heap" where
  "add_css_items a h [] = h"
| "add_css_items a h ((medium, paths) # data) =
     add_css_items a (foldl (css_add_path a medium) h paths) data"

definition Media_add_css :: "media_heap \<Rightarrow> media_ref \<Rightarrow> css_dict option \<Rightarrow> media_heap" where
  "Media_add_css h self data =
     (case self of
        empty_instance \<Rightarrow> h
      | Obj a \<Rightarrow> (case data of None \<Rightarrow> h | Some items \<Rightarrow> add_css_items a h items))"

text \<open>\<^verbatim>\<open>Media()\<close>\<close>

definition Media_new :: "media_heap \<Rightarrow> media_ref \<times> media_heap" where
  "Media_new h = alloc h \<lparr>rep_cls = Media, rep_css = [], rep_js = []\<rparr>"

text \<open>\<^verbatim>\<open>Media.__add__(self, other)\<close>\<close>

definition Media_add :: "media_heap \<Rightarrow> media_ref \<Rightarrow> media_ref \<Rightarrow> media_ref \<times> media_heap" where
  "Media_add h self other =
     (let (combined, h0) = Media_new h;
          h1 = Media_add_css h0 combined (Some (media_css (deref h0 self)));
          h2 = Media_add_css h1 combined (Some (media_css (deref h1 other)));
          h3 = Media_add_js h2 combined (Some (media_js (deref h2 self)));
          h4 = Media_add_js h3 combined (Some (media_js (deref h3 other)))
      in (combined, h4))"

subsection \<open>\<^verbatim>\<open>ImmutableMedia\<close>\<close>

text \<open>
  \<^verbatim>\<open>ImmutableMedia(**kwargs)\<close>: the two keyword arguments read are \<^verbatim>\<open>css\<close> and \<^verbatim>\<open>js\<close>, each
  \<^verbatim>\<open>None\<close> when absent; they are added by the methods of the base class. With no keyword argument
  at all nothing is added, which is what adding \<^verbatim>\<open>None\<close> twice does as well.
\<close>

definition ImmutableMedia_init ::
  "media_heap \<Rightarrow> css_dict option \<Rightarrow> string list option \<Rightarrow> media_ref \<times> media_heap" where
  "ImmutableMedia_init h css_kw js_kw =
     (let (self, h0) = alloc h \<lparr>rep_cls = ImmutableMedia, rep_css = [], rep_js = []\<rparr>;
          h1 = Media_add_css h0 self css_kw;
          h2 = Media_add_js h1 self js_kw
      in (self, h2))"



text \<open>
  \<^verbatim>\<open>ImmutableMedia.__add__(self, other)\<close>. \<^verbatim>\<open>other._css.copy()\<close> is a shallow copy: a new
  dictionary with the path lists of \<^verbatim>\<open>other\<close> themselves, so the new object has the references of
  \<^verbatim>\<open>other\<close>. \<^verbatim>\<open>other._js[:]\<close> is a new list with the same paths. \<^verbatim>\<open>self._css\<close> and \<^verbatim>\<open>self._js\<close> are
  not read.
\<close>

definition ImmutableMedia_add :: "media_heap \<Rightarrow> media_ref \<Rightarrow> media_ref \<Rightarrow> media_ref \<times> media_heap" where
  "ImmutableMedia_add h self other =
     (case other of
        empty_instance \<Rightarrow> (other, h)
      | Obj b \<Rightarrow>
          let (combined, h1) = Media_new h;
              c = length (media_objects h)
          in (combined,
              h1\<lparr>media_objects := (media_objects h1)
                    [c := (media_objects h1 ! c)
                            \<lparr>rep_css := rep_css (media_objects h1 ! b),
                             rep_js := rep_js (media_objects h1 ! b)\<rparr>]\<rparr>))"

subsection \<open>Method calls, dispatched on the class of the receiver\<close>



text \<open>\<^verbatim>\<open>self + other\<close>\<close>

definition media_plus :: "media_heap \<Rightarrow> media_ref \<Rightarrow> media_ref \<Rightarrow> media_ref \<times> media_heap" where
  "media_plus h self other =
     (case media_cls (deref h self) of
        ImmutableMedia \<Rightarrow> ImmutableMedia_add h self other
      | Media \<Rightarrow> Media_add h self other)"

section \<open>\<^verbatim>\<open>ContentItemOutput\<close> (models/__init__.py)\<close>

text \<open>
  \<^verbatim>\<open>html\<close> is the text of the safe string the object holds (\<^verbatim>\<open>str(self.html)\<close> and \<^verbatim>\<open>mark_safe\<close> do
  not change the text). \<^verbatim>\<open>DEFAULT_TIMEOUT\<close> is the cache framework's sentinel object.
\<close>

datatype cache_timeout = DEFAULT_TIMEOUT | Seconds int

record content_item_output =
  co_html :: string
  co_media :: media_ref
  co_cacheable :: bool
  co_cache_timeout :: cache_timeout

text \<open>
  The state \<^verbatim>\<open>__getstate__\<close> returns is what pickling stores of it: the text, the contents of the
  CSS dictionary and the contents of the JS list.
\<close>

type_synonym pickled_state = "string \<times> css_dict \<times> string list"

definition getstate :: "media_heap \<Rightarrow> content_item_output \<Rightarrow> pickled_state" where
  "getstate h self = (co_html self, media_css (deref h (co_media self)), media_js (deref h (co_media self)))"

text \<open>
  Unpickling builds the dictionary of the state anew: a new path list for every medium, in the
  order of the dictionary.
\<close>

definition unpickled_css :: "media_heap \<Rightarrow> css_dict \<Rightarrow> (string \<times> list_ref) list \<times> media_heap" where
  "unpickled_css h css =
     (zip (map fst css) [length (path_lists h) ..< length (path_lists h) + length css],
      h\<lparr>path_lists := path_lists h @ map snd css\<rparr>)"

text \<open>
  \<^verbatim>\<open>__setstate__\<close> fills the blank object that unpickling creates, so it is a function from the
  state to the restored object. A dictionary or list is falsy exactly when it is empty.
\<close>

definition setstate :: "media_heap \<Rightarrow> pickled_state \<Rightarrow> content_item_output \<times> media_heap" where
  "setstate h state =
     (case state of (html_str, css, js) \<Rightarrow>
        if css = [] \<and> js = [] then
          (\<lparr>co_html = html_str, co_media = empty_instance, co_cacheable = True,
            co_cache_timeout = DEFAULT_TIMEOUT\<rparr>, h)
        else
          let (m, h1) = ImmutableMedia_init h None None;
              (d, h2) = unpickled_css h1 css;
              a = length (media_objects h);
              h3 = h2\<lparr>media_objects := (media_objects h2)[a := (media_objects h2 ! a)\<lparr>rep_css := d\<rparr>]\<rparr>;
              h4 = h3\<lparr>media_objects := (media_objects h3)[a := (media_objects h3 ! a)\<lparr>rep_js := js\<rparr>]\<rparr>
          in (\<lparr>co_html = html_str, co_media = m, co_cacheable = True,
               co_cache_timeout = DEFAULT_TIMEOUT\<rparr>, h4))"

text \<open>\<^verbatim>\<open>_insert_media(self, media)\<close>\<close>

definition insert_media ::
  "media_heap \<Rightarrow> content_item_output \<Rightarrow> media_ref \<Rightarrow> content_item_output \<times> media_heap" where
  "insert_media h self m =
     (if co_media self = empty_instance then
        let (fresh, h0) = Media_new h;
            (r, h1) = media_plus h0 fresh m
        in (self\<lparr>co_media := r\<rparr>, h1)
      else
        let (r, h1) = media_plus h m (co_media self)
        in (self\<lparr>co_media := r\<rparr>, h1))"

subsection \<open>The files of a media object, and heaps in good order\<close>

text \<open>
  \<open>css_has css medium path\<close>: the dictionary lists \<open>path\<close> under \<open>medium\<close>.
\<close>

definition css_has :: "css_dict \<Rightarrow> string \<Rightarrow> string \<Rightarrow> bool" where
  "css_has css medium path = (case map_of css medium of None \<Rightarrow> False | Some ps \<Rightarrow> path \<in> set ps)"

text \<open>
  The loop body of \<^verbatim>\<open>add_css\<close> and the loop itself once more, on the contents of the dictionary
  instead of the heap: what \<open>css_add_path\<close> and \<open>add_css_items\<close> do to the view that \<open>deref\<close> gives
  of the object they are called on, when that object shares no path list.
\<close>

definition css_add_path_v :: "string \<Rightarrow> css_dict \<Rightarrow> string \<Rightarrow> css_dict" where
  "css_add_path_v medium css path =
     (case map_of css medium of
        None \<Rightarrow> AList.update medium [path] css
      | Some ps \<Rightarrow>
          if ps = [] \<or> path \<notin> set ps then AList.update medium (ps @ [path]) css else css)"

fun add_css_items_v :: "css_dict \<Rightarrow> css_dict \<Rightarrow> css_dict" where
  "add_css_items_v css [] = css"
| "add_css_items_v css ((medium, paths) # data) =
     add_css_items_v (foldl (css_add_path_v medium) css paths) data"

text \<open>
  \<open>wf_heap h\<close>: every dictionary of the heap refers to path lists that exist. \<open>grown h h'\<close>: \<open>h'\<close> is
  \<open>h\<close> with one more object, whose dictionary has one entry for each medium and holds path lists
  of its own, all of them created after \<open>h\<close>; the objects and the path lists of \<open>h\<close> are as they
  were.
\<close>

definition wf_heap :: "media_heap \<Rightarrow> bool" where
  "wf_heap h =
     (\<forall>rep \<in> set (media_objects h). \<forall>e \<in> set (rep_css rep). snd e < length (path_lists h))"

definition grown :: "media_heap \<Rightarrow> media_heap \<Rightarrow> bool" where
  "grown h h' =
     (\<exists>rep extra.
        media_objects h' = media_objects h @ [rep]
      \<and> path_lists h' = path_lists h @ extra
      \<and> (\<forall>e \<in> set (rep_css rep). length (path_lists h) \<le> snd e \<and> snd e < length (path_lists h'))
      \<and> distinct (map fst (rep_css rep))
      \<and> distinct (map snd (rep_css rep)))"

section \<open>\<^verbatim>\<open>ContentItemTree\<close> (models/__init__.py)\<close>

text \<open>
  \<^verbatim>\<open>from_list\<close> reads three attributes of every item: \<^verbatim>\<open>id\<close>, \<^verbatim>\<open>parent_item_id\<close> (both a
  primary key or \<^verbatim>\<open>None\<close>) and \<^verbatim>\<open>sort_order\<close>. It hands the same item objects on in several
  lists and calls \<^verbatim>\<open>_set_children\<close> on some of them, so an item is a reference into a heap \<open>H\<close>
  of item objects, and the children set on items are kept in a store of their own.
\<close>

record content_item =
  item_id :: "int option"
  parent_item_id :: "int option"
  sort_order :: int

type_synonym item_ref = nat

type_synonym item_heap = "item_ref \<Rightarrow> content_item"

text \<open>
  \<^verbatim>\<open>ContentItemTree(list)\<close>: the list itself and the attributes \<^verbatim>\<open>flat_items\<close>, \<^verbatim>\<open>placeholder\<close>,
  \<^verbatim>\<open>parent_item\<close> (\<^verbatim>\<open>None\<close> by default).
\<close>

record 'p content_item_tree =
  tree_items :: "item_ref list"
  flat_items :: "item_ref list option"
  tree_placeholder :: "'p option"
  tree_parent_item :: "item_ref option"

type_synonym 'p children_store = "item_ref \<Rightarrow> 'p content_item_tree option"

definition ContentItemTree_init ::
  "item_ref list \<Rightarrow> item_ref list option \<Rightarrow> 'p option \<Rightarrow> item_ref option \<Rightarrow> 'p content_item_tree" where
  "ContentItemTree_init items flat placeholder parent_item =
     \<lparr>tree_items = items, flat_items = flat, tree_placeholder = placeholder,
      tree_parent_item = parent_item\<rparr>"

text \<open>
  Modelled from the spec: \<^verbatim>\<open>ContentItem._set_children\<close> is defined in \<^verbatim>\<open>models/db.py\<close>, which is
  not among the sources. It is taken to record the given tree as the children of the item it is
  called on; the store maps an item to the children last set on it.
\<close>

definition set_children ::
  "'p children_store \<Rightarrow> item_ref \<Rightarrow> 'p content_item_tree \<Rightarrow> 'p children_store" where
  "set_children st item children = st(item \<mapsto> children)"

text \<open>\<^verbatim>\<open>d.setdefault(k, []).append(x)\<close> on an ordered dictionary of lists.\<close>

definition setdefault_append :: "'k \<Rightarrow> 'a \<Rightarrow> ('k \<times> 'a list) list \<Rightarrow> ('k \<times> 'a list) list" where
  "setdefault_append k x d =
     (case map_of d k of
        None \<Rightarrow> AList.update k [x] d
      | Some xs \<Rightarrow> AList.update k (xs @ [x]) d)"

text \<open>
  The first loop of \<^verbatim>\<open>from_list\<close>: \<^verbatim>\<open>parents\<close> (an \<^verbatim>\<open>OrderedDict\<close>) groups the items by
  \<^verbatim>\<open>parent_item_id\<close>, \<^verbatim>\<open>lookup\<close> (a \<^verbatim>\<open>dict\<close>) maps an id to the item that has it; a later item
  with the same id replaces an earlier one.
\<close>

fun index_items ::
  "item_heap \<Rightarrow> item_ref list \<Rightarrow> (int option \<times> item_ref list) list \<times> (int option \<rightharpoonup> item_ref)
     \<Rightarrow> (int option \<times> item_ref list) list \<times> (int option \<rightharpoonup> item_ref)" where
  "index_items H [] acc = acc"
| "index_items H (item # items) (parents, lookup) =
     index_items H items
       (setdefault_append (parent_item_id (H item)) item parents,
        lookup(item_id (H item) \<mapsto> item))"

text \<open>\<^verbatim>\<open>children.sort(key=lambda item: item.sort_order)\<close>: ascending and stable, as \<open>sort_key\<close> is.\<close>

definition by_sort_order :: "item_heap \<Rightarrow> item_ref list \<Rightarrow> item_ref list" where
  "by_sort_order H children = sort_key (\<lambda>item. sort_order (H item)) children"

text \<open>
  The second loop, over the groups in the order of \<^verbatim>\<open>parents\<close>. \<^verbatim>\<open>lookup[parent_id]\<close> raises
  \<^verbatim>\<open>KeyError\<close> for an id no item has. A child tree gets no \<^verbatim>\<open>flat_items\<close>.
\<close>

fun attach_children ::
  "item_heap \<Rightarrow> (int option \<rightharpoonup> item_ref) \<Rightarrow> int option \<Rightarrow> 'p option
     \<Rightarrow> (int option \<times> item_ref list) list \<Rightarrow> 'p children_store \<Rightarrow> py_error + 'p children_store" where
  "attach_children H lookup top_parent_id placeholder [] st = Inr st"
| "attach_children H lookup top_parent_id placeholder ((parent_id, children) # rest) st =
     (if parent_id \<noteq> None \<and> parent_id \<noteq> top_parent_id then
        (case lookup parent_id of
           None \<Rightarrow> Inl KeyError
         | Some sub_parent_item \<Rightarrow>
             attach_children H lookup top_parent_id placeholder rest
               (set_children st sub_parent_item
                  (ContentItemTree_init (by_sort_order H children) None placeholder
                     (Some sub_parent_item))))
      else attach_children H lookup top_parent_id placeholder rest st)"

text \<open>
  \<^verbatim>\<open>ContentItemTree.from_list(items, top_parent_id, placeholder, parent_item)\<close>. \<open>st\<close> holds the
  children the items have before the call. \<^verbatim>\<open>parents[top_parent_id]\<close> raises \<^verbatim>\<open>KeyError\<close> when no
  item has that parent.
\<close>

definition from_list ::
  "item_heap \<Rightarrow> 'p children_store \<Rightarrow> item_ref list \<Rightarrow> int option \<Rightarrow> 'p option \<Rightarrow> item_ref option
     \<Rightarrow> py_error + ('p content_item_tree \<times> 'p children_store)" where
  "from_list H st items top_parent_id placeholder parent_item =
     (if items = [] then Inr (ContentItemTree_init [] None placeholder parent_item, st)
      else
        let (parents, lookup) = index_items H items ([], Map.empty)
        in case attach_children H lookup top_parent_id placeholder parents st of
             Inl e \<Rightarrow> Inl e
           | Inr st' \<Rightarrow>
               (case map_of parents top_parent_id of
                  None \<Rightarrow> Inl KeyError
                | Some root_items \<Rightarrow>
                    Inr (ContentItemTree_init (by_sort_order H root_items) (Some items)
                           placeholder parent_item, st')))"

text \<open>
  The words of the claims about \<^verbatim>\<open>from_list\<close>: the group of a parent id (the items with that
  \<^verbatim>\<open>parent_item_id\<close>, in list order), the item of the list that has a given id (the last one, should
  several have it), and the condition on the list under which no dictionary access fails.
\<close>

definition group_of :: "item_heap \<Rightarrow> item_ref list \<Rightarrow> int option \<Rightarrow> item_ref list" where
  "group_of H items k = filter (\<lambda>item. parent_item_id (H item) = k) items"

definition item_with_id :: "item_heap \<Rightarrow> item_ref list \<Rightarrow> int option \<Rightarrow> item_ref option" where
  "item_with_id H items k = List.find (\<lambda>item. item_id (H item) = k) (rev items)"

definition from_list_pre :: "item_heap \<Rightarrow> item_ref list \<Rightarrow> int option \<Rightarrow> bool" where
  "from_list_pre H items top_parent_id =
     (items = [] \<or>
      ((\<exists>item \<in> set items. parent_item_id (H item) = top_parent_id) \<and>
       (\<forall>item \<in> set items.
          parent_item_id (H item) \<noteq> None \<and> parent_item_id (H item) \<noteq> top_parent_id \<longrightarrow>
          (\<exists>p \<in> set items. item_id (H p) = parent_item_id (H item)))))"

section \<open>\<^verbatim>\<open>BaseContentItemFormSet\<close> (admin/contentitems.py)\<close>

subsection \<open>\<^verbatim>\<open>get_form_class\<close>\<close>

text \<open>
  A form class is its name and its \<^verbatim>\<open>base_fields\<close>, an ordered dictionary from field names to
  field objects (of any type \<open>'f\<close>). The form that \<^verbatim>\<open>super().get_form_class(model)\<close> returns and the
  keys of \<^verbatim>\<open>ContentItemForm.base_fields\<close> come from modules that are not among the sources; both
  are parameters. \<^verbatim>\<open>BASE_FIELDS\<close> is the tuple the module itself lists as the base fields of
  \<^verbatim>\<open>ContentItemForm\<close>.
\<close>

record 'f form_class =
  form_name :: string
  base_fields :: "(string \<times> 'f) list"

definition BASE_FIELDS :: "string list" where
  "BASE_FIELDS =
     [''polymorphic_ctype'', ''placeholder'', ''placeholder_slot'', ''parent_item'',
      ''parent_item_uid'', ''sort_order'']"

text \<open>
  The generator \<^verbatim>\<open>((k, base_fields[k]) for k in field_order)\<close>, consumed from left to right:
  \<^verbatim>\<open>base_fields[k]\<close> raises \<^verbatim>\<open>KeyError\<close> at the first key the dictionary does not have.
\<close>

fun collect_items :: "('k \<times> 'v) list \<Rightarrow> 'k list \<Rightarrow> py_error + ('k \<times> 'v) list" where
  "collect_items d [] = Inr []"
| "collect_items d (k # ks) =
     (case map_of d k of
        None \<Rightarrow> Inl KeyError
      | Some v \<Rightarrow> (case collect_items d ks of Inl e \<Rightarrow> Inl e | Inr ps \<Rightarrow> Inr ((k, v) # ps)))"

definition get_form_class :: "string list \<Rightarrow> 'f form_class \<Rightarrow> py_error + 'f form_class" where
  "get_form_class ContentItemForm_keys form =
     (let first_fields = ContentItemForm_keys;
          field_order = first_fields @ [f \<leftarrow> dict_keys (base_fields form). f \<notin> set first_fields];
          base_fields0 = base_fields form
      in case collect_items base_fields0 field_order of
           Inl e \<Rightarrow> Inl e
         | Inr pairs \<Rightarrow> Inr (form\<lparr>base_fields := py_dict pairs\<rparr>))"

subsection \<open>\<^verbatim>\<open>_set_placeholder_id\<close>, \<^verbatim>\<open>save_new\<close>, \<^verbatim>\<open>save_existing\<close>\<close>

text \<open>
  A \<^verbatim>\<open>Placeholder\<close> row is its primary key and its slot. The row a form saves
  (\<^verbatim>\<open>form.instance\<close>) has the foreign key column \<^verbatim>\<open>placeholder_id\<close>, the related object
  \<^verbatim>\<open>placeholder\<close> and \<^verbatim>\<open>language_code\<close>; assigning to \<^verbatim>\<open>instance.placeholder\<close> sets the column too.
  The form has the two cleaned values the method reads, \<^verbatim>\<open>cleaned_data['placeholder_slot']\<close>
  and \<^verbatim>\<open>cleaned_data['placeholder']\<close>, and its row; the method reads the selected placeholder
  from \<^verbatim>\<open>cleaned_data\<close> and the deleted one from \<^verbatim>\<open>form.instance.placeholder_id\<close>, so the two are
  separate fields.
\<close>

record placeholder =
  ph_id :: int
  ph_slot :: string

record content_item_row =
  row_placeholder_id :: "int option"
  row_placeholder :: "placeholder option"
  row_language_code :: string

definition assign_placeholder :: "placeholder option \<Rightarrow> content_item_row \<Rightarrow> content_item_row" where
  "assign_placeholder p row = row\<lparr>row_placeholder_id := map_option ph_id p, row_placeholder := p\<rparr>"

record content_item_form =
  cleaned_placeholder_slot :: "string option"
  cleaned_placeholder :: "placeholder option"
  form_row :: content_item_row

text \<open>
  The formset: \<^verbatim>\<open>current_language\<close>, \<^verbatim>\<open>_deleted_placeholders\<close> (ids, set by the placeholder
  editor), the cache \<^verbatim>\<open>_placeholders_by_slot\<close>, and the placeholders of the parent object
  \<^verbatim>\<open>self.instance\<close> in the database.
\<close>

record content_item_formset =
  current_language :: string
  deleted_placeholders :: "int list"
  placeholders_by_slot :: "string \<rightharpoonup> placeholder"
  parent_placeholders :: "placeholder list"

text \<open>
  \<^verbatim>\<open>__init__\<close> leaves \<^verbatim>\<open>_deleted_placeholders\<close> and \<^verbatim>\<open>_placeholders_by_slot\<close> empty. The language
  (of the parent, or the default language) is computed by functions outside the sources and is
  a parameter.
\<close>

definition BaseContentItemFormSet_init :: "string \<Rightarrow> placeholder list \<Rightarrow> content_item_formset" where
  "BaseContentItemFormSet_init language rows =
     \<lparr>current_language = language, deleted_placeholders = [], placeholders_by_slot = Map.empty,
      parent_placeholders = rows\<rparr>"

text \<open>
  Modelled from the spec: \<^verbatim>\<open>Placeholder.objects.parent(self.instance)\<close> is a method of
  \<^verbatim>\<open>PlaceholderManager\<close> (\<^verbatim>\<open>models/managers.py\<close>), which is not among the sources. It is taken
  to be the placeholders of the formset's parent object, \<open>parent_placeholders\<close>. \<^verbatim>\<open>.get(slot=s)\<close>
  is the query set's \<^verbatim>\<open>get\<close>: the one row with that slot, \<^verbatim>\<open>DoesNotExist\<close> when there is none,
  \<^verbatim>\<open>MultipleObjectsReturned\<close> when there are several.
\<close>

definition get_by_slot :: "placeholder list \<Rightarrow> string \<Rightarrow> py_error + placeholder" where
  "get_by_slot rows s =
     (case filter (\<lambda>p. ph_slot p = s) rows of
        [] \<Rightarrow> Inl DoesNotExist
      | [p] \<Rightarrow> Inr p
      | _ \<Rightarrow> Inl MultipleObjectsReturned)"

text \<open>The \<^verbatim>\<open>try\<close> block: the cache first, the database on \<^verbatim>\<open>KeyError\<close>, and the result is cached.\<close>

definition desired_placeholder ::
  "content_item_formset \<Rightarrow> string \<Rightarrow> py_error + (placeholder \<times> content_item_formset)" where
  "desired_placeholder self form_slot =
     (case placeholders_by_slot self form_slot of
        Some p \<Rightarrow> Inr (p, self)
      | None \<Rightarrow>
          (case get_by_slot (parent_placeholders self) form_slot of
             Inl e \<Rightarrow> Inl e
           | Inr p \<Rightarrow>
               Inr (p, self\<lparr>placeholders_by_slot := (placeholders_by_slot self)(form_slot \<mapsto> p)\<rparr>)))"

text \<open>
  \<^verbatim>\<open>_set_placeholder_id(self, form)\<close>. A model object is truthy, so \<^verbatim>\<open>not form_placeholder\<close> holds
  for \<^verbatim>\<open>None\<close> only; \<^verbatim>\<open>None\<close> is not among the deleted ids.
\<close>

definition set_placeholder_id ::
  "content_item_formset \<Rightarrow> content_item_form \<Rightarrow> py_error + (content_item_formset \<times> content_item_form)" where
  "set_placeholder_id self form =
     (case cleaned_placeholder_slot form of
        None \<Rightarrow> Inr (self, form)
      | Some form_slot \<Rightarrow>
          if form_slot = [] then Inr (self, form)
          else
            let form_placeholder = cleaned_placeholder form
            in if (case form_placeholder of None \<Rightarrow> True | Some p \<Rightarrow> ph_slot p \<noteq> form_slot) then
                 (case desired_placeholder self form_slot of
                    Inl e \<Rightarrow> Inl e
                  | Inr (desired, self') \<Rightarrow>
                      Inr (self',
                           form\<lparr>cleaned_placeholder := Some desired,
                                form_row := assign_placeholder (Some desired) (form_row form)\<rparr>))
               else if (case row_placeholder_id (form_row form) of
                          None \<Rightarrow> False
                        | Some i \<Rightarrow> i \<in> set (deleted_placeholders self)) then
                 Inr (self,
                      form\<lparr>cleaned_placeholder := None,
                           form_row := assign_placeholder None (form_row form)\<rparr>)
               else Inr (self, form))"

text \<open>
  \<^verbatim>\<open>save_new\<close> and \<^verbatim>\<open>save_existing\<close> return the row; the result also holds the formset and the
  form as the call leaves them and whether the row was written to the database. The framework's
  \<^verbatim>\<open>super().save_new(form, commit=False)\<close> and \<^verbatim>\<open>form.save(commit)\<close> hand back \<^verbatim>\<open>form.instance\<close>.
\<close>

record save_result =
  saved_formset :: content_item_formset
  saved_form :: content_item_form
  returned_row :: content_item_row
  written :: bool

definition save_new :: "content_item_formset \<Rightarrow> content_item_form \<Rightarrow> bool \<Rightarrow> py_error + save_result" where
  "save_new self form commit =
     (case set_placeholder_id self form of
        Inl e \<Rightarrow> Inl e
      | Inr (self', form') \<Rightarrow>
          let row = (form_row form')\<lparr>row_language_code := current_language self'\<rparr>
          in Inr \<lparr>saved_formset = self', saved_form = form'\<lparr>form_row := row\<rparr>,
                  returned_row = row, written = commit\<rparr>)"

definition save_existing ::
  "content_item_formset \<Rightarrow> content_item_form \<Rightarrow> bool \<Rightarrow> py_error + save_result" where
  "save_existing self form commit =
     (case (if commit then set_placeholder_id self form else Inr (self, form)) of
        Inl e \<Rightarrow> Inl e
      | Inr (self', form') \<Rightarrow>
          Inr \<lparr>saved_formset = self', saved_form = form', returned_row = form_row form',
               written = commit\<rparr>)"

text \<open>
  The cache holds only what the database lookup returned: an invariant of the formset, true after
  \<^verbatim>\<open>__init__\<close> and kept by \<^verbatim>\<open>_set_placeholder_id\<close>.
\<close>

definition cache_consistent :: "content_item_formset \<Rightarrow> bool" where
  "cache_consistent self =
     (\<forall>s p. placeholders_by_slot self s = Some p \<longrightarrow> get_by_slot (parent_placeholders self) s = Inr p)"

section \<open>Inline classes for the plugins (admin/contentitems.py)\<close>

text \<open>
  Attribute values of a plugin are Python values of several types; \<open>pyval\<close> has the ones the
  admin options hold, with their truth values. A class is named by its name.
\<close>

datatype pyval =
    PyNone
  | PyStr string
  | PyTuple "pyval list"
  | PyList "pyval list"
  | PyDict "(pyval \<times> pyval) list"
  | PyClass string

fun is_true :: "pyval \<Rightarrow> bool" where
  "is_true PyNone = False"
| "is_true (PyStr s) = (s \<noteq> [])"
| "is_true (PyTuple xs) = (xs \<noteq> [])"
| "is_true (PyList xs) = (xs \<noteq> [])"
| "is_true (PyDict kvs) = (kvs \<noteq> [])"
| "is_true (PyClass c) = True"

text \<open>\<^verbatim>\<open>tuple(v)\<close> for a tuple or a list.\<close>

fun tuple_of :: "pyval \<Rightarrow> pyval" where
  "tuple_of (PyTuple xs) = PyTuple xs"
| "tuple_of (PyList xs) = PyTuple xs"
| "tuple_of v = v"

text \<open>
  A \<^verbatim>\<open>ContentPlugin\<close> instance, with the attributes \<^verbatim>\<open>get_content_item_admin_options\<close> reads:
  the module of its class, the name of its model class, and \<open>plugin_getattr\<close> for
  \<^verbatim>\<open>getattr(plugin, name)\<close> on the names of \<^verbatim>\<open>COPY_FIELDS\<close>. An object handed to the functions is
  a plugin or something else.
\<close>

record content_plugin =
  plugin_module :: string
  plugin_model :: string
  plugin_verbose_name :: string
  plugin_type_name :: string
  plugin_admin_form_template :: pyval
  plugin_admin_init_template :: pyval
  plugin_fieldsets :: pyval
  plugin_getattr :: "string \<Rightarrow> pyval"

datatype pyobj = ContentPlugin content_plugin | OtherObject pyval

definition is_plugin :: "pyobj \<Rightarrow> bool" where
  "is_plugin obj = (case obj of ContentPlugin p \<Rightarrow> True | OtherObject v \<Rightarrow> False)"

definition COPY_FIELDS :: "string list" where
  "COPY_FIELDS =
     [''form'', ''raw_id_fields'', ''filter_vertical'', ''filter_horizontal'',
      ''radio_fields'', ''prepopulated_fields'', ''formfield_overrides'', ''readonly_fields'']"

text \<open>
  The \<^verbatim>\<open>attrs\<close> dictionary: its eight fixed keys, and under \<open>attr_copied\<close> the entries the loop
  over \<^verbatim>\<open>COPY_FIELDS\<close> adds, in that order.
\<close>

record admin_options =
  attr_module :: string
  attr_model :: string
  attr_name :: string
  attr_plugin :: content_plugin
  attr_type_name :: string
  attr_cp_admin_form_template :: pyval
  attr_cp_admin_init_template :: pyval
  attr_extra_fieldsets :: pyval
  attr_copied :: "(string \<times> pyval) list"

definition get_content_item_admin_options :: "pyobj \<Rightarrow> py_error + admin_options" where
  "get_content_item_admin_options obj =
     (case obj of
        OtherObject v \<Rightarrow> Inl TypeError
      | ContentPlugin plugin \<Rightarrow>
          Inr \<lparr>attr_module = plugin_module plugin,
               attr_model = plugin_model plugin,
               attr_name = plugin_verbose_name plugin,
               attr_plugin = plugin,
               attr_type_name = plugin_type_name plugin,
               attr_cp_admin_form_template = plugin_admin_form_template plugin,
               attr_cp_admin_init_template = plugin_admin_init_template plugin,
               attr_extra_fieldsets =
                 (if is_true (plugin_fieldsets plugin) then tuple_of (plugin_fieldsets plugin)
                  else PyTuple []),
               attr_copied =
                 [(name, plugin_getattr plugin name).
                    name \<leftarrow> COPY_FIELDS, is_true (plugin_getattr plugin name)]\<rparr>)"

text \<open>
  \<^verbatim>\<open>type(class_name, (base,), attrs)\<close>: a class is its name, its base and its attributes.
  \<^verbatim>\<open>lru_cache\<close> returns the class built before for the same arguments; the function of the
  model gives equal classes for equal arguments.
\<close>

record child_inline_class =
  child_class_name :: string
  child_class_base :: string
  child_attrs :: admin_options

definition create_inline_for_plugin :: "pyobj \<Rightarrow> string \<Rightarrow> py_error + child_inline_class" where
  "create_inline_for_plugin obj base =
     (case get_content_item_admin_options obj of
        Inl e \<Rightarrow> Inl e
      | Inr attrs \<Rightarrow>
          Inr \<lparr>child_class_name = attr_model attrs @ ''_AutoChildInline'',
               child_class_base = base, child_attrs = attrs\<rparr>)"

record parent_inline_class =
  parent_class_name :: string
  parent_class_base :: string
  inline_model :: string
  inline_plugins :: "pyobj list"
  child_inlines :: "child_inline_class list"

text \<open>The loop \<^verbatim>\<open>for plugin in plugins: child_inlines.append(...)\<close>.\<close>

fun create_child_inlines ::
  "string \<Rightarrow> pyobj list \<Rightarrow> child_inline_class list \<Rightarrow> py_error + child_inline_class list" where
  "create_child_inlines child_base [] acc = Inr acc"
| "create_child_inlines child_base (plugin # plugins) acc =
     (case create_inline_for_plugin plugin child_base of
        Inl e \<Rightarrow> Inl e
      | Inr c \<Rightarrow> create_child_inlines child_base plugins (acc @ [c]))"

text \<open>
  \<^verbatim>\<open>get_content_item_inlines(plugins, parent_base, child_base)\<close>. The registered plugins,
  \<^verbatim>\<open>extensions.plugin_pool.get_plugins()\<close>, come from a module outside the sources and are the
  parameter \<open>plugin_pool\<close>.
\<close>

definition get_content_item_inlines ::
  "pyobj list \<Rightarrow> pyobj list option \<Rightarrow> string \<Rightarrow> string \<Rightarrow> py_error + parent_inline_class list" where
  "get_content_item_inlines plugin_pool plugins_arg parent_base child_base =
     (let plugins = (case plugins_arg of None \<Rightarrow> plugin_pool | Some ps \<Rightarrow> ps)
      in case create_child_inlines child_base plugins [] of
           Inl e \<Rightarrow> Inl e
         | Inr cs \<Rightarrow>
             Inr [\<lparr>parent_class_name = ''ContentItemParentInline'', parent_class_base = parent_base,
                   inline_model = ''ContentItem'', inline_plugins = plugins,
                   child_inlines = cs\<rparr>])"

section \<open>Concrete values\<close>

text \<open>Objects and inputs at which the theorems below are instantiated and the code is run.\<close>

definition immutable_a :: media_obj where
  "immutable_a =
     \<lparr>media_cls = ImmutableMedia, media_css = [(''screen'', [''a.css''])], media_js = [''a.js'']\<rparr>"

definition django_b :: media_obj where
  "django_b =
     \<lparr>media_cls = Media, media_css = [(''screen'', [''b.css''])], media_js = [''b.js'']\<rparr>"

text \<open>
  A heap with the two: object 0 holds what \<open>immutable_a\<close> says, object 1 what \<open>django_b\<close> says,
  each with a path list of its own for the medium \<^verbatim>\<open>screen\<close>.
\<close>

definition rep_a :: media_rep where
  "rep_a = \<lparr>rep_cls = ImmutableMedia, rep_css = [(''screen'', 0)], rep_js = [''a.js'']\<rparr>"

definition rep_b :: media_rep where
  "rep_b = \<lparr>rep_cls = Media, rep_css = [(''screen'', 1)], rep_js = [''b.js'']\<rparr>"

definition heap_ab :: media_heap where
  "heap_ab = \<lparr>media_objects = [rep_a, rep_b], path_lists = [[''a.css''], [''b.css'']]\<rparr>"

definition restored_o :: media_rep where
  "restored_o = \<lparr>rep_cls = ImmutableMedia, rep_css = [], rep_js = [''o.js'']\<rparr>"

definition restored_m :: media_rep where
  "restored_m = \<lparr>rep_cls = ImmutableMedia, rep_css = [], rep_js = [''m.js'']\<rparr>"



definition example_output :: content_item_output where
  "example_output =
     \<lparr>co_html = ''<p>gist</p>'', co_media = Obj 1, co_cacheable = False,
      co_cache_timeout = Seconds 60\<rparr>"

text \<open>Four items: two roots, and two children of the item with id 10.\<close>

definition example_heap :: item_heap where
  "example_heap item =
     (if item = 0 then \<lparr>item_id = Some 10, parent_item_id = None, sort_order = 2\<rparr>
      else if item = 2 then \<lparr>item_id = Some 11, parent_item_id = None, sort_order = 1\<rparr>
      else if item = 3 then \<lparr>item_id = Some 12, parent_item_id = Some 10, sort_order = 5\<rparr>
      else \<lparr>item_id = Some 13, parent_item_id = Some 10, sort_order = 3\<rparr>)"

definition gist_form :: "nat form_class" where
  "gist_form =
     \<lparr>form_name = ''GistItemForm'',
      base_fields =
        [(''gist_id'', 0), (''placeholder'', 2), (''filename'', 3), (''sort_order'', 4),
         (''placeholder_slot'', 5), (''polymorphic_ctype'', 6), (''parent_item'', 7),
         (''parent_item_uid'', 8)]\<rparr>"

definition main_placeholder :: placeholder where
  "main_placeholder = \<lparr>ph_id = 3, ph_slot = ''main''\<rparr>"

definition old_placeholder :: placeholder where
  "old_placeholder = \<lparr>ph_id = 5, ph_slot = ''main''\<rparr>"

definition sidebar_placeholder :: placeholder where
  "sidebar_placeholder = \<lparr>ph_id = 7, ph_slot = ''sidebar''\<rparr>"

definition example_formset :: content_item_formset where
  "example_formset =
     (BaseContentItemFormSet_init ''en'' [main_placeholder, sidebar_placeholder])
       \<lparr>deleted_placeholders := [5]\<rparr>"

definition new_form :: content_item_form where
  "new_form =
     \<lparr>cleaned_placeholder_slot = Some ''main'', cleaned_placeholder = None,
      form_row = \<lparr>row_placeholder_id = None, row_placeholder = None, row_language_code = []\<rparr>\<rparr>"

text \<open>
  A form whose selected placeholder (id 5, slot \<^verbatim>\<open>main\<close>) is among the deleted ones and is the
  placeholder of its row, and a form with the same selection whose row is in the sidebar
  placeholder.
\<close>

definition orphaned_form :: content_item_form where
  "orphaned_form =
     \<lparr>cleaned_placeholder_slot = Some ''main'', cleaned_placeholder = Some old_placeholder,
      form_row = \<lparr>row_placeholder_id = Some 5, row_placeholder = Some old_placeholder,
                  row_language_code = ''en''\<rparr>\<rparr>"

definition moved_form :: content_item_form where
  "moved_form =
     \<lparr>cleaned_placeholder_slot = Some ''main'', cleaned_placeholder = Some old_placeholder,
      form_row = \<lparr>row_placeholder_id = Some 7, row_placeholder = Some sidebar_placeholder,
                  row_language_code = ''en''\<rparr>\<rparr>"

definition gist_plugin :: content_plugin where
  "gist_plugin =
     \<lparr>plugin_module = ''fluent_contents.plugins.gist.content_plugins'',
      plugin_model = ''GistItem'',
      plugin_verbose_name = ''GitHub Gist snippet'',
      plugin_type_name = ''GistItem'',
      plugin_admin_form_template = PyStr ''admin/fluent_contents/contentitem/admin_form.html'',
      plugin_admin_init_template = PyNone,
      plugin_fieldsets = PyNone,
      plugin_getattr = (\<lambda>name. if name = ''form'' then PyClass ''ContentItemForm'' else PyTuple [])\<rparr>"

section \<open>Facts about dictionaries\<close>

lemma fst_set_foldl_update:
  "fst ` set (foldl (\<lambda>d (k, v). AList.update k v d) d0 ps) = fst ` set d0 \<union> fst ` set ps"
proof (induction ps arbitrary: d0)
  case Nil
  show ?case by simp
next
  case (Cons p ps)
  obtain k v where p: "p = (k, v)" by (cases p)
  show ?case
    unfolding p using Cons.IH [of "AList.update k v d0"] by (auto simp: dom_update)
qed

lemma set_dict_keys_py_dict: "set (dict_keys (py_dict ps)) = fst ` set ps"
  using fst_set_foldl_update [of "[]" ps] by (simp add: dict_keys_def py_dict_def)

lemma distinct_foldl_update:
  "distinct (map fst d0) \<Longrightarrow> distinct (map fst (foldl (\<lambda>d (k, v). AList.update k v d) d0 ps))"
proof (induction ps arbitrary: d0)
  case Nil
  then show ?case by simp
next
  case (Cons p ps)
  obtain k v where p: "p = (k, v)" by (cases p)
  show ?case
    unfolding p using Cons.IH [of "AList.update k v d0"] Cons.prems by (simp add: distinct_update)
qed

lemma distinct_py_dict: "distinct (dict_keys (py_dict ps))"
  using distinct_foldl_update [of "[]" ps] by (simp add: dict_keys_def py_dict_def)

lemma update_new_key: "k \<notin> fst ` set d \<Longrightarrow> AList.update k v d = d @ [(k, v)]"
  by (induction d) auto

section \<open>Theorems about \<^verbatim>\<open>PlaceholderData\<close>\<close>

lemma lookup_role_resolved: "lookup_role P role = resolved_role P role"
  by (cases role) (auto simp: lookup_role_def resolved_role_def ROLE_ALIASES_def)

text \<open>
  C10. \<^verbatim>\<open>PlaceholderData(slot, title, role, fallback_language)\<close> raises \<^verbatim>\<open>ValueError\<close> exactly when
  the slot is falsy or the role, after the aliases \<^verbatim>\<open>main\<close>, \<^verbatim>\<open>sidebar\<close>, \<^verbatim>\<open>related\<close> are resolved
  and a missing role has become \<^verbatim>\<open>Placeholder.MAIN\<close>, is not a key of \<^verbatim>\<open>Placeholder.ROLES\<close>; it
  raises nothing else. When it returns, the slot is the one given, the title is the given one or,
  when that is missing, the slot, the role is the resolved one, and a falsy fallback language
  is \<^verbatim>\<open>None\<close>.
\<close>

theorem PlaceholderData_init_ValueError_iff:
  "((\<exists>e. PlaceholderData_init P slot title role fallback_language = Inl (ValueError e))
      \<longleftrightarrow> (\<not> truthy slot \<or> resolved_role P role \<notin> set (ALLOWED_ROLES P)))
   \<and> set (ALLOWED_ROLES P) = fst ` set (ROLES P)
   \<and> ((\<exists>e. PlaceholderData_init P slot title role fallback_language = Inl e)
      \<longleftrightarrow> (\<exists>v. PlaceholderData_init P slot title role fallback_language = Inl (ValueError v)))
   \<and> (\<forall>d. PlaceholderData_init P slot title role fallback_language = Inr d \<longrightarrow>
         Some (pd_slot d) = slot
       \<and> pd_title d = (if truthy title then the title else pd_slot d)
       \<and> pd_role d = resolved_role P role
       \<and> pd_fallback_language d = (if truthy fallback_language then fallback_language else None))"
proof -
  have keys: "set (ALLOWED_ROLES P) = fst ` set (ROLES P)"
    by (simp add: ALLOWED_ROLES_def set_dict_keys_py_dict)
  have "((\<exists>e. PlaceholderData_init P slot title role fallback_language = Inl (ValueError e))
      \<longleftrightarrow> (\<not> truthy slot \<or> resolved_role P role \<notin> set (ALLOWED_ROLES P)))
   \<and> ((\<exists>e. PlaceholderData_init P slot title role fallback_language = Inl e)
      \<longleftrightarrow> (\<exists>v. PlaceholderData_init P slot title role fallback_language = Inl (ValueError v)))
   \<and> (\<forall>d. PlaceholderData_init P slot title role fallback_language = Inr d \<longrightarrow>
         Some (pd_slot d) = slot
       \<and> pd_title d = (if truthy title then the title else pd_slot d)
       \<and> pd_role d = resolved_role P role
       \<and> pd_fallback_language d = (if truthy fallback_language then fallback_language else None))"
    by (cases slot; cases title)
       (auto simp: PlaceholderData_init_def Let_def lookup_role_resolved)
  with keys show ?thesis by simp
qed

theorem PlaceholderData_init_ValueError_iff_witness:
  "PlaceholderData_init upstream_roles (Some ''content'') None (Some ''sidebar'') (Some [])
     = Inr \<lparr>pd_slot = ''content'', pd_title = ''content'', pd_role = ''s'',
            pd_fallback_language = None\<rparr>
   \<and> PlaceholderData_init upstream_roles (Some ''content'') None (Some ''footer'') None
     = Inl (ValueError (InvalidRole ''footer''))
   \<and> PlaceholderData_init upstream_roles (Some []) None None None = Inl (ValueError SlotNotDefined)
   \<and> resolved_role upstream_roles (Some ''sidebar'') = ''s''"
proof -
  have a: "PlaceholderData_init upstream_roles (Some ''content'') None (Some ''sidebar'') (Some [])
             = Inr \<lparr>pd_slot = ''content'', pd_title = ''content'', pd_role = ''s'',
                    pd_fallback_language = None\<rparr>"
    by (simp add: PlaceholderData_init_def lookup_role_def ROLE_ALIASES_def ALLOWED_ROLES_def
        py_dict_def dict_keys_def upstream_roles_def)
  have b: "PlaceholderData_init upstream_roles (Some ''content'') None (Some ''footer'') None
             = Inl (ValueError (InvalidRole ''footer''))"
    by (simp add: PlaceholderData_init_def lookup_role_def ROLE_ALIASES_def ALLOWED_ROLES_def
        py_dict_def dict_keys_def upstream_roles_def)
  have c: "PlaceholderData_init upstream_roles (Some []) None None None
             = Inl (ValueError SlotNotDefined)"
    by (simp add: PlaceholderData_init_def)
  have d: "resolved_role upstream_roles (Some ''sidebar'') = ''s''"
    using PlaceholderData_init_ValueError_iff
      [of upstream_roles "Some ''content''" None "Some ''sidebar''" "Some []"] a
    by simp
  from a b c d show ?thesis by simp
qed

section \<open>Theorems about media objects and \<^verbatim>\<open>ContentItemOutput\<close>\<close>

lemma deref_alloc_old:
  "valid_ref h x \<Longrightarrow> deref (h\<lparr>media_objects := media_objects h @ [obj]\<rparr>) x = deref h x"
  by (cases x) (simp_all add: deref_def valid_ref_def nth_append css_contents_def)

lemma ImmutableMedia_add_eq:
  "valid_ref h other \<Longrightarrow> ImmutableMedia_add h self other =
     (case other of
        empty_instance \<Rightarrow> (empty_instance, h)
      | Obj b \<Rightarrow>
          (Obj (length (media_objects h)),
           h\<lparr>media_objects := media_objects h
                 @ [\<lparr>rep_cls = Media, rep_css = rep_css (media_objects h ! b),
                      rep_js = rep_js (media_objects h ! b)\<rparr>]\<rparr>))"
  by (cases other)
     (simp_all add: ImmutableMedia_add_def Media_new_def alloc_def valid_ref_def nth_append Let_def)




lemma css_contents_unpickled:
  "map (\<lambda>(medium, l). (medium, (xs @ map snd css) ! l))
     (zip (map fst css) [length xs ..< length xs + length css]) = css"
proof (rule nth_equalityI)
  show "length (map (\<lambda>(medium, l). (medium, (xs @ map snd css) ! l))
     (zip (map fst css) [length xs ..< length xs + length css])) = length css"
    by simp
next
  fix i
  assume "i < length (map (\<lambda>(medium, l). (medium, (xs @ map snd css) ! l))
     (zip (map fst css) [length xs ..< length xs + length css]))"
  then have i: "i < length css" by simp
  then show "map (\<lambda>(medium, l). (medium, (xs @ map snd css) ! l))
     (zip (map fst css) [length xs ..< length xs + length css]) ! i = css ! i"
    by (simp add: nth_append prod_eq_iff)
qed

text \<open>
  C9. Restoring an output from its pickled state keeps the text of the HTML and the CSS and JS
  of the media; the restored media is the shared empty instance exactly when both are empty; the
  restored object is cacheable with the default timeout, whatever the original's flags were.
\<close>

theorem setstate_getstate:
  "(case setstate h (getstate h out) of (restored, h') \<Rightarrow>
      co_html restored = co_html out
    \<and> media_css (deref h' (co_media restored)) = media_css (deref h (co_media out))
    \<and> media_js (deref h' (co_media restored)) = media_js (deref h (co_media out))
    \<and> (co_media restored = empty_instance \<longleftrightarrow>
         media_css (deref h (co_media out)) = [] \<and> media_js (deref h (co_media out)) = [])
    \<and> co_cacheable restored = True
    \<and> co_cache_timeout restored = DEFAULT_TIMEOUT)"
  by (simp add: setstate_def getstate_def ImmutableMedia_init_def alloc_def Media_add_css_def
      Media_add_js_def unpickled_css_def Let_def)
     (simp add: deref_def css_contents_def css_contents_unpickled)

theorem setstate_getstate_witness:
  "co_cacheable example_output = False
   \<and> co_cache_timeout example_output = Seconds 60
   \<and> getstate heap_ab example_output = (''<p>gist</p>'', [(''screen'', [''b.css''])], [''b.js''])
   \<and> (case setstate heap_ab (getstate heap_ab example_output) of (restored, h') \<Rightarrow>
         co_html restored = ''<p>gist</p>''
       \<and> media_css (deref h' (co_media restored)) = [(''screen'', [''b.css''])]
       \<and> media_js (deref h' (co_media restored)) = [''b.js'']
       \<and> co_media restored \<noteq> empty_instance
       \<and> co_cacheable restored = True
       \<and> co_cache_timeout restored = DEFAULT_TIMEOUT)"
proof -
  have g: "getstate heap_ab example_output = (''<p>gist</p>'', [(''screen'', [''b.css''])], [''b.js''])"
    by (simp add: getstate_def example_output_def deref_def css_contents_def heap_ab_def rep_b_def)
  have o: "co_html example_output = ''<p>gist</p>''"
    "media_css (deref heap_ab (co_media example_output)) = [(''screen'', [''b.css''])]"
    "media_js (deref heap_ab (co_media example_output)) = [''b.js'']"
    by (simp_all add: example_output_def deref_def css_contents_def heap_ab_def rep_b_def)
  show ?thesis
    using setstate_getstate [where h = heap_ab and out = example_output] g
    by (auto simp: o) (simp_all add: example_output_def)
qed

text \<open>
  C2 (the code loses files). \<^verbatim>\<open>ImmutableMedia(css={'screen': ['a.css']}, js=['a.js'])\<close> holds what
  \<open>immutable_a\<close> says; in \<open>heap_ab\<close> it is object 0 and the plain media object \<open>django_b\<close> is
  object 1. Their sum is object 2, with the dictionary entries and the JS of object 1: it holds
  what \<open>django_b\<close> says, and \<^verbatim>\<open>a.js\<close> and \<^verbatim>\<open>a.css\<close> of the left operand are in it neither as JS nor
  as CSS. With the operands exchanged, the base class's \<^verbatim>\<open>__add__\<close> keeps the files of both.
\<close>

theorem ImmutableMedia_add_drops_own_files:
  "ImmutableMedia_init empty_heap (Some [(''screen'', [''a.css''])]) (Some [''a.js''])
     = (Obj 0, \<lparr>media_objects = [rep_a], path_lists = [[''a.css'']]\<rparr>)
   \<and> deref heap_ab (Obj 0) = immutable_a
   \<and> deref heap_ab (Obj 1) = django_b
   \<and> media_plus heap_ab (Obj 0) (Obj 1)
       = (Obj 2, heap_ab\<lparr>media_objects := [rep_a, rep_b, rep_b]\<rparr>)
   \<and> deref (heap_ab\<lparr>media_objects := [rep_a, rep_b, rep_b]\<rparr>) (Obj 0) = immutable_a
   \<and> deref (heap_ab\<lparr>media_objects := [rep_a, rep_b, rep_b]\<rparr>) (Obj 1) = django_b
   \<and> deref (heap_ab\<lparr>media_objects := [rep_a, rep_b, rep_b]\<rparr>) (Obj 2) = django_b
   \<and> ''a.js'' \<in> set (media_js (deref heap_ab (Obj 0)))
   \<and> ''a.js'' \<notin> set (media_js (deref (heap_ab\<lparr>media_objects := [rep_a, rep_b, rep_b]\<rparr>) (Obj 2)))
   \<and> map_of (media_css (deref heap_ab (Obj 0))) ''screen'' = Some [''a.css'']
   \<and> map_of (media_css (deref (heap_ab\<lparr>media_objects := [rep_a, rep_b, rep_b]\<rparr>) (Obj 2))) ''screen''
       = Some [''b.css'']
   \<and> (case media_plus heap_ab (Obj 1) (Obj 0) of (r, h') \<Rightarrow>
         r = Obj 2
       \<and> length (media_objects h') = 3
       \<and> deref h' (Obj 0) = immutable_a
       \<and> deref h' (Obj 1) = django_b
       \<and> deref h' (Obj 2) =
           \<lparr>media_cls = Media, media_css = [(''screen'', [''b.css'', ''a.css''])],
            media_js = [''b.js'', ''a.js'']\<rparr>)"
  by (simp add: ImmutableMedia_init_def media_plus_def ImmutableMedia_add_def Media_add_def
      Media_new_def alloc_def deref_def css_contents_def Media_add_css_def Media_add_js_def
      css_add_path_def empty_heap_def heap_ab_def rep_a_def rep_b_def
      immutable_a_def django_b_def Let_def)

text \<open>
  C4 (the code loses files). Two outputs are restored from the cache, one with \<^verbatim>\<open>o.js\<close> and one
  with \<^verbatim>\<open>m.js\<close>; \<^verbatim>\<open>__setstate__\<close> makes the media of both an \<^verbatim>\<open>ImmutableMedia\<close>. Inserting the
  media of the second into the first leaves the first with \<^verbatim>\<open>o.js\<close> only: \<^verbatim>\<open>m.js\<close> is dropped.
\<close>

theorem insert_media_drops_inserted_files:
  "setstate empty_heap (''<p>'', [], [''o.js''])
     = (\<lparr>co_html = ''<p>'', co_media = Obj 0, co_cacheable = True,
         co_cache_timeout = DEFAULT_TIMEOUT\<rparr>,
        \<lparr>media_objects = [restored_o], path_lists = []\<rparr>)
   \<and> setstate \<lparr>media_objects = [restored_o], path_lists = []\<rparr> (''<b>'', [], [''m.js''])
     = (\<lparr>co_html = ''<b>'', co_media = Obj 1, co_cacheable = True,
         co_cache_timeout = DEFAULT_TIMEOUT\<rparr>,
        \<lparr>media_objects = [restored_o, restored_m], path_lists = []\<rparr>)
   \<and> insert_media \<lparr>media_objects = [restored_o, restored_m], path_lists = []\<rparr>
        \<lparr>co_html = ''<p>'', co_media = Obj 0, co_cacheable = True,
         co_cache_timeout = DEFAULT_TIMEOUT\<rparr> (Obj 1)
     = (\<lparr>co_html = ''<p>'', co_media = Obj 2, co_cacheable = True,
         co_cache_timeout = DEFAULT_TIMEOUT\<rparr>,
        \<lparr>media_objects = [restored_o, restored_m,
                           \<lparr>rep_cls = Media, rep_css = [], rep_js = [''o.js'']\<rparr>],
         path_lists = []\<rparr>)
   \<and> ''m.js'' \<in> set (media_js (deref \<lparr>media_objects = [restored_o, restored_m], path_lists = []\<rparr> (Obj 1)))
   \<and> deref \<lparr>media_objects = [restored_o, restored_m,
                              \<lparr>rep_cls = Media, rep_css = [], rep_js = [''o.js'']\<rparr>],
            path_lists = []\<rparr> (Obj 2)
       = \<lparr>media_cls = Media, media_css = [], media_js = [''o.js'']\<rparr>
   \<and> ''m.js'' \<notin> set (media_js (deref \<lparr>media_objects = [restored_o, restored_m,
                              \<lparr>rep_cls = Media, rep_css = [], rep_js = [''o.js'']\<rparr>],
            path_lists = []\<rparr> (Obj 2)))"
  by (simp add: setstate_def insert_media_def ImmutableMedia_init_def media_plus_def
      ImmutableMedia_add_def Media_add_def unpickled_css_def
      Media_new_def alloc_def deref_def css_contents_def Media_add_css_def Media_add_js_def
      css_add_path_def empty_heap_def restored_o_def restored_m_def Let_def)


subsection \<open>Where files are kept\<close>

text \<open>
  The sum of the base class keeps the files of both operands, and \<^verbatim>\<open>_insert_media\<close> changes no
  object that exists; it keeps the files of both media objects except where \<^verbatim>\<open>ImmutableMedia\<close>
  with files of its own is the left operand of the sum.
\<close>

lemma grown_frame:
  assumes "grown h h'" and "wf_heap h" and "valid_ref h x"
  shows "deref h' x = deref h x"
proof (cases x)
  case empty_instance
  then show ?thesis by (simp add: deref_def)
next
  case (Obj a)
  with assms(3) have a: "a < length (media_objects h)" by (simp add: valid_ref_def)
  from assms(1) obtain rep extra where
    o: "media_objects h' = media_objects h @ [rep]" and p: "path_lists h' = path_lists h @ extra"
    by (auto simp: grown_def)
  have "\<forall>e \<in> set (rep_css (media_objects h ! a)). snd e < length (path_lists h)"
    using assms(2) a nth_mem [of a "media_objects h"] unfolding wf_heap_def by blast
  then have "css_contents h' (rep_css (media_objects h ! a)) = css_contents h (rep_css (media_objects h ! a))"
    by (auto simp: css_contents_def p nth_append)
  with a show ?thesis by (simp add: Obj deref_def o nth_append)
qed

lemma map_of_css_contents:
  "map_of (css_contents h d) m = map_option (\<lambda>l. path_lists h ! l) (map_of d m)"
  by (induction d) (auto simp: css_contents_def)

lemma contents_update_cell:
  assumes "distinct (map fst d)" and "distinct (map snd d)" and "map_of d medium = Some l"
    and "\<forall>e \<in> set d. snd e < length cs"
  shows "map (\<lambda>(m, l'). (m, cs[l := v] ! l')) d
         = AList.update medium v (map (\<lambda>(m, l'). (m, cs ! l')) d)"
  using assms
proof (induction d)
  case Nil
  then show ?case by simp
next
  case (Cons e d)
  obtain m0 l0 where e: "e = (m0, l0)" by (cases e)
  show ?case
  proof (cases "m0 = medium")
    case True
    with Cons.prems(3) have l0: "l0 = l" by (simp add: e)
    have "l \<notin> snd ` set d" using Cons.prems(2) by (simp add: e l0)
    then have "\<And>m b. (m, b) \<in> set d \<Longrightarrow> l \<noteq> b" by force
    then have "map (\<lambda>(m, l'). (m, cs[l := v] ! l')) d = map (\<lambda>(m, l'). (m, cs ! l')) d"
      by auto
    moreover have "l < length cs" using Cons.prems(4) by (simp add: e l0)
    ultimately show ?thesis by (simp add: e True l0)
  next
    case False
    with Cons.prems(3) have tl: "map_of d medium = Some l" by (simp add: e)
    then have "(medium, l) \<in> set d" by (rule map_of_SomeD)
    then have "l \<in> snd ` set d" by (rule rev_image_eqI) simp
    with Cons.prems(2) have ne: "l0 \<noteq> l" by (auto simp: e)
    have "map (\<lambda>(m, l'). (m, cs[l := v] ! l')) d
          = AList.update medium v (map (\<lambda>(m, l'). (m, cs ! l')) d)"
      using Cons.IH Cons.prems tl by simp
    with False ne show ?thesis by (simp add: e)
  qed
qed

lemma fst_set_css_contents: "fst ` set (css_contents h d) = fst ` set d"
  by (force simp: css_contents_def)

lemma css_add_path_refines:
  assumes g: "grown h h'" and c: "c = length (media_objects h)"
  shows "grown h (css_add_path c medium h' path)
       \<and> media_css (deref (css_add_path c medium h' path) (Obj c))
           = css_add_path_v medium (media_css (deref h' (Obj c))) path
       \<and> media_js (deref (css_add_path c medium h' path) (Obj c)) = media_js (deref h' (Obj c))
       \<and> media_cls (deref (css_add_path c medium h' path) (Obj c)) = media_cls (deref h' (Obj c))"
proof -
  from g obtain rep extra where
    o: "media_objects h' = media_objects h @ [rep]" and p: "path_lists h' = path_lists h @ extra"
    and refs: "\<forall>e \<in> set (rep_css rep). length (path_lists h) \<le> snd e \<and> snd e < length (path_lists h')"
    and d1: "distinct (map fst (rep_css rep))" and d2: "distinct (map snd (rep_css rep))"
    by (auto simp: grown_def)
  let ?d = "rep_css rep"
  let ?cs = "path_lists h'"
  have at_c: "media_objects h' ! c = rep" by (simp add: o c)
  have view: "media_css (deref h' (Obj c)) = css_contents h' ?d"
    by (simp add: deref_def at_c)
  show ?thesis
  proof (cases "map_of ?d medium")
    case None
    then have new: "medium \<notin> fst ` set ?d" by (simp add: map_of_eq_None_iff)
    let ?n = "length ?cs"
    let ?rep' = "rep\<lparr>rep_css := ?d @ [(medium, ?n)]\<rparr>"
    let ?h'' = "h'\<lparr>media_objects := media_objects h @ [?rep'], path_lists := ?cs @ [[path]]\<rparr>"
    have step: "css_add_path c medium h' path = ?h''"
      using None by (simp add: css_add_path_def at_c update_new_key [OF new] o c)
    have fresh: "?n \<notin> snd ` set ?d" using refs by force
    have gr: "grown h ?h''"
      unfolding grown_def
      apply (rule exI [of _ ?rep'], rule exI [of _ "extra @ [[path]]"])
      using refs d1 d2 new fresh by (auto simp: p)
    have "map (\<lambda>(m, l). (m, (?cs @ [[path]]) ! l)) ?d = map (\<lambda>(m, l). (m, ?cs ! l)) ?d"
      using refs by (auto simp: nth_append)
    then have cont: "css_contents ?h'' (?d @ [(medium, ?n)]) = css_contents h' ?d @ [(medium, [path])]"
      by (simp add: css_contents_def)
    have vnone: "map_of (css_contents h' ?d) medium = None"
      by (simp add: map_of_css_contents None)
    have vnew: "medium \<notin> fst ` set (css_contents h' ?d)"
      using new by (simp add: fst_set_css_contents)
    have val: "css_add_path_v medium (css_contents h' ?d) path = css_contents h' ?d @ [(medium, [path])]"
      by (simp add: css_add_path_v_def vnone update_new_key [OF vnew])
    have d'': "deref ?h'' (Obj c) =
                 \<lparr>media_cls = rep_cls rep, media_css = css_contents ?h'' (rep_css ?rep'),
                  media_js = rep_js rep\<rparr>"
      by (simp add: deref_def c)
    have d': "deref h' (Obj c) =
                 \<lparr>media_cls = rep_cls rep, media_css = css_contents h' ?d, media_js = rep_js rep\<rparr>"
      by (simp add: deref_def at_c)
    show ?thesis
      unfolding step using gr by (simp add: d'' d' cont val)
  next
    case (Some l)
    then have in_d: "(medium, l) \<in> set ?d" by (rule map_of_SomeD)
    with refs have l: "length (path_lists h) \<le> l" "l < length ?cs" by force+
    have bound: "\<forall>e \<in> set ?d. snd e < length ?cs" using refs by simp
    have vsome: "map_of (css_contents h' ?d) medium = Some (?cs ! l)"
      by (simp add: map_of_css_contents Some)
    show ?thesis
    proof (cases "?cs ! l = [] \<or> path \<notin> set (?cs ! l)")
      case True
      let ?v = "?cs ! l @ [path]"
      let ?h'' = "h'\<lparr>path_lists := ?cs[l := ?v]\<rparr>"
      have step: "css_add_path c medium h' path = ?h''"
        using Some True by (simp add: css_add_path_def at_c)
      have cells: "?cs[l := ?v] = path_lists h @ extra[l - length (path_lists h) := ?v]"
        using l by (simp add: p list_update_append)
      have gr: "grown h ?h''"
        unfolding grown_def
        apply (rule exI [of _ rep], rule exI [of _ "extra[l - length (path_lists h) := ?v]"])
        using refs d1 d2 o cells by (simp add: p)
      have cont: "css_contents ?h'' ?d = AList.update medium ?v (css_contents h' ?d)"
        using contents_update_cell [OF d1 d2 Some bound, of ?v] by (simp add: css_contents_def)
      have val: "css_add_path_v medium (css_contents h' ?d) path
                   = AList.update medium ?v (css_contents h' ?d)"
        using True by (simp add: css_add_path_v_def vsome)
      have d'': "deref ?h'' (Obj c) =
                 \<lparr>media_cls = rep_cls rep, media_css = css_contents ?h'' ?d, media_js = rep_js rep\<rparr>"
        by (simp add: deref_def at_c)
      have d': "deref h' (Obj c) =
                 \<lparr>media_cls = rep_cls rep, media_css = css_contents h' ?d, media_js = rep_js rep\<rparr>"
        by (simp add: deref_def at_c)
      show ?thesis
        unfolding step using gr by (simp add: d'' d' cont val)
    next
      case False
      have step: "css_add_path c medium h' path = h'"
        using Some False by (simp add: css_add_path_def at_c)
      have val: "css_add_path_v medium (css_contents h' ?d) path = css_contents h' ?d"
        using False by (simp add: css_add_path_v_def vsome)
      show ?thesis unfolding step using g by (simp add: view val)
    qed
  qed
qed

lemma foldl_css_add_path_refines:
  assumes "grown h h'" and "c = length (media_objects h)"
  shows "grown h (foldl (css_add_path c medium) h' paths)
       \<and> media_css (deref (foldl (css_add_path c medium) h' paths) (Obj c))
           = foldl (css_add_path_v medium) (media_css (deref h' (Obj c))) paths
       \<and> media_js (deref (foldl (css_add_path c medium) h' paths) (Obj c)) = media_js (deref h' (Obj c))
       \<and> media_cls (deref (foldl (css_add_path c medium) h' paths) (Obj c)) = media_cls (deref h' (Obj c))"
  using assms(1)
proof (induction paths arbitrary: h')
  case Nil
  then show ?case by simp
next
  case (Cons path paths)
  from css_add_path_refines [OF Cons.prems assms(2), of medium path]
    Cons.IH [of "css_add_path c medium h' path"]
  show ?case by simp
qed

lemma add_css_items_refines:
  assumes "grown h h'" and "c = length (media_objects h)"
  shows "grown h (add_css_items c h' data)
       \<and> media_css (deref (add_css_items c h' data) (Obj c))
           = add_css_items_v (media_css (deref h' (Obj c))) data
       \<and> media_js (deref (add_css_items c h' data) (Obj c)) = media_js (deref h' (Obj c))
       \<and> media_cls (deref (add_css_items c h' data) (Obj c)) = media_cls (deref h' (Obj c))"
  using assms(1)
proof (induction data arbitrary: h')
  case Nil
  then show ?case by simp
next
  case (Cons item data)
  obtain medium paths where item: "item = (medium, paths)" by (cases item)
  from foldl_css_add_path_refines [OF Cons.prems assms(2), of medium paths]
    Cons.IH [of "foldl (css_add_path c medium) h' paths"]
  show ?case by (simp add: item)
qed

lemma Media_add_js_refines:
  assumes "grown h h'" and "c = length (media_objects h)"
  shows "grown h (Media_add_js h' (Obj c) (Some paths))
       \<and> media_js (deref (Media_add_js h' (Obj c) (Some paths)) (Obj c))
           = add_js_paths (media_js (deref h' (Obj c))) paths
       \<and> media_css (deref (Media_add_js h' (Obj c) (Some paths)) (Obj c)) = media_css (deref h' (Obj c))
       \<and> media_cls (deref (Media_add_js h' (Obj c) (Some paths)) (Obj c)) = media_cls (deref h' (Obj c))"
proof -
  from assms(1) obtain rep extra where
    o: "media_objects h' = media_objects h @ [rep]" and p: "path_lists h' = path_lists h @ extra"
    and refs: "\<forall>e \<in> set (rep_css rep). length (path_lists h) \<le> snd e \<and> snd e < length (path_lists h')"
    and d1: "distinct (map fst (rep_css rep))" and d2: "distinct (map snd (rep_css rep))"
    by (auto simp: grown_def)
  let ?rep' = "rep\<lparr>rep_js := add_js_paths (rep_js rep) paths\<rparr>"
  have step: "Media_add_js h' (Obj c) (Some paths) = h'\<lparr>media_objects := media_objects h @ [?rep']\<rparr>"
    by (simp add: Media_add_js_def o assms(2))
  have gr: "grown h (h'\<lparr>media_objects := media_objects h @ [?rep']\<rparr>)"
    unfolding grown_def
    apply (rule exI [of _ ?rep'], rule exI [of _ extra])
    using refs d1 d2 by (simp add: p)
  show ?thesis
    unfolding step using gr by (simp add: deref_def o assms(2) css_contents_def)
qed

lemma Media_new_grown:
  "grown h (h\<lparr>media_objects := media_objects h @ [\<lparr>rep_cls = Media, rep_css = [], rep_js = []\<rparr>]\<rparr>)"
  unfolding grown_def
  by (rule exI [of _ "\<lparr>rep_cls = Media, rep_css = [], rep_js = []\<rparr>"], rule exI [of _ "[]"]) simp

lemma Media_add_result:
  assumes wf: "wf_heap h" and vs: "valid_ref h self" and vo: "valid_ref h other"
  shows "\<exists>h'. Media_add h self other = (Obj (length (media_objects h)), h')
       \<and> grown h h'
       \<and> deref h' (Obj (length (media_objects h))) =
           \<lparr>media_cls = Media,
            media_css = add_css_items_v (add_css_items_v [] (media_css (deref h self)))
                          (media_css (deref h other)),
            media_js = add_js_paths (add_js_paths [] (media_js (deref h self)))
                          (media_js (deref h other))\<rparr>"
proof -
  let ?c = "length (media_objects h)"
  let ?h0 = "h\<lparr>media_objects := media_objects h @ [\<lparr>rep_cls = Media, rep_css = [], rep_js = []\<rparr>]\<rparr>"
  let ?h1 = "add_css_items ?c ?h0 (media_css (deref h self))"
  let ?h2 = "add_css_items ?c ?h1 (media_css (deref h other))"
  let ?h3 = "Media_add_js ?h2 (Obj ?c) (Some (media_js (deref h self)))"
  let ?h4 = "Media_add_js ?h3 (Obj ?c) (Some (media_js (deref h other)))"
  have g0: "grown h ?h0" by (rule Media_new_grown)
  have v0: "deref ?h0 (Obj ?c) = \<lparr>media_cls = Media, media_css = [], media_js = []\<rparr>"
    by (simp add: deref_def css_contents_def)
  note r1 = add_css_items_refines [OF g0 refl, of "media_css (deref h self)"]
  then have g1: "grown h ?h1" by simp
  note r2 = add_css_items_refines [OF g1 refl, of "media_css (deref h other)"]
  then have g2: "grown h ?h2" by simp
  note r3 = Media_add_js_refines [OF g2 refl, of "media_js (deref h self)"]
  then have g3: "grown h ?h3" by simp
  note r4 = Media_add_js_refines [OF g3 refl, of "media_js (deref h other)"]
  then have g4: "grown h ?h4" by simp
  have f0s: "deref ?h0 self = deref h self" by (rule grown_frame [OF g0 wf vs])
  have f1o: "deref ?h1 other = deref h other" by (rule grown_frame [OF g1 wf vo])
  have f2s: "deref ?h2 self = deref h self" by (rule grown_frame [OF g2 wf vs])
  have f3o: "deref ?h3 other = deref h other" by (rule grown_frame [OF g3 wf vo])
  have run: "Media_add h self other = (Obj ?c, ?h4)"
    by (simp add: Media_add_def Media_new_def alloc_def Let_def Media_add_css_def f0s f1o f2s f3o)
  have cls: "media_cls (deref ?h4 (Obj ?c)) = Media"
    using r1 r2 r3 r4 v0 by simp
  have css: "media_css (deref ?h4 (Obj ?c)) =
               add_css_items_v (add_css_items_v [] (media_css (deref h self))) (media_css (deref h other))"
    using r1 r2 r3 r4 v0 by simp
  have js: "media_js (deref ?h4 (Obj ?c)) =
               add_js_paths (add_js_paths [] (media_js (deref h self))) (media_js (deref h other))"
    using r1 r2 r3 r4 v0 by simp
  have "deref ?h4 (Obj ?c) =
           \<lparr>media_cls = Media,
            media_css = add_css_items_v (add_css_items_v [] (media_css (deref h self)))
                          (media_css (deref h other)),
            media_js = add_js_paths (add_js_paths [] (media_js (deref h self)))
                          (media_js (deref h other))\<rparr>"
    using cls css js by (cases "deref ?h4 (Obj ?c)") simp
  with run g4 show ?thesis by blast
qed

lemma set_add_js_paths: "set (add_js_paths js data) = set js \<union> set data"
  by (induction data arbitrary: js) auto

lemma css_has_add_path:
  "css_has (css_add_path_v m css p) m' p' \<longleftrightarrow> css_has css m' p' \<or> (m' = m \<and> p' = p)"
  by (cases "map_of css m") (auto simp: css_has_def css_add_path_v_def update_conv')

lemma css_has_add_paths:
  "css_has (foldl (css_add_path_v m) css ps) m' p' \<longleftrightarrow> css_has css m' p' \<or> (m' = m \<and> p' \<in> set ps)"
  by (induction ps arbitrary: css) (auto simp: css_has_add_path)

lemma css_has_add_items:
  "css_has (add_css_items_v css data) m' p' \<longleftrightarrow>
     css_has css m' p' \<or> (\<exists>ps. (m', ps) \<in> set data \<and> p' \<in> set ps)"
  by (induction css data rule: add_css_items_v.induct) (auto simp: css_has_add_paths)

lemma css_has_dict:
  "distinct (map fst data) \<Longrightarrow> (\<exists>ps. (m, ps) \<in> set data \<and> p \<in> set ps) \<longleftrightarrow> css_has data m p"
proof -
  assume "distinct (map fst data)"
  then have "((m, ps) \<in> set data) = (map_of data m = Some ps)" for ps by simp
  then show ?thesis by (auto simp: css_has_def split: option.splits)
qed

lemma css_has_empty: "\<not> css_has [] m p"
  by (simp add: css_has_def)

lemma Media_add_files:
  assumes "wf_heap h" and "valid_ref h self" and "valid_ref h other"
    and "distinct (map fst (media_css (deref h self)))"
    and "distinct (map fst (media_css (deref h other)))"
  shows "case Media_add h self other of (r, h') \<Rightarrow>
           r = Obj (length (media_objects h))
         \<and> media_cls (deref h' r) = Media
         \<and> set (media_js (deref h' r)) = set (media_js (deref h self)) \<union> set (media_js (deref h other))
         \<and> (\<forall>m p. css_has (media_css (deref h' r)) m p \<longleftrightarrow>
                css_has (media_css (deref h self)) m p \<or> css_has (media_css (deref h other)) m p)
         \<and> (\<forall>x. valid_ref h x \<longrightarrow> deref h' x = deref h x)"
proof -
  from Media_add_result [OF assms(1,2,3)] obtain h' where
    run: "Media_add h self other = (Obj (length (media_objects h)), h')"
    and g: "grown h h'"
    and v: "deref h' (Obj (length (media_objects h))) =
           \<lparr>media_cls = Media,
            media_css = add_css_items_v (add_css_items_v [] (media_css (deref h self)))
                          (media_css (deref h other)),
            media_js = add_js_paths (add_js_paths [] (media_js (deref h self)))
                          (media_js (deref h other))\<rparr>"
    by blast
  have old: "\<forall>x. valid_ref h x \<longrightarrow> deref h' x = deref h x"
    using grown_frame [OF g assms(1)] by blast
  show ?thesis
    using css_has_dict [OF assms(4)] css_has_dict [OF assms(5)] old
    by (simp add: run v set_add_js_paths css_has_add_items css_has_empty)
qed

lemma wf_heap_Media_new:
  "wf_heap h \<Longrightarrow> wf_heap (h\<lparr>media_objects := media_objects h @ [\<lparr>rep_cls = Media, rep_css = [], rep_js = []\<rparr>]\<rparr>)"
  by (auto simp: wf_heap_def)

lemma insert_media_old_objects:
  assumes "wf_heap h" and "valid_ref h m" and "valid_ref h (co_media out)" and "valid_ref h x"
  shows "deref (snd (insert_media h out m)) x = deref h x"
proof (cases "co_media out = empty_instance")
  case True
  let ?E = "\<lparr>rep_cls = Media, rep_css = [], rep_js = []\<rparr>"
  let ?h0 = "h\<lparr>media_objects := media_objects h @ [?E]\<rparr>"
  let ?c = "Obj (length (media_objects h))"
  have wf0: "wf_heap ?h0" by (rule wf_heap_Media_new [OF assms(1)])
  have vc: "valid_ref ?h0 ?c" by (simp add: valid_ref_def)
  have vm: "valid_ref ?h0 m" using assms(2) by (cases m) (simp_all add: valid_ref_def)
  have vx: "valid_ref ?h0 x" using assms(4) by (cases x) (simp_all add: valid_ref_def)
  have cls: "media_cls (deref ?h0 ?c) = Media" by (simp add: deref_def)
  from Media_add_result [OF wf0 vc vm] obtain h1 where
    run: "Media_add ?h0 ?c m = (Obj (length (media_objects ?h0)), h1)" and g: "grown ?h0 h1"
    by blast
  have ins: "insert_media h out m = (out\<lparr>co_media := Obj (length (media_objects ?h0))\<rparr>, h1)"
    using True by (simp add: insert_media_def Media_new_def alloc_def media_plus_def cls run)
  have "deref h1 x = deref ?h0 x" by (rule grown_frame [OF g wf0 vx])
  also have "\<dots> = deref h x" by (rule deref_alloc_old [OF assms(4)])
  finally show ?thesis by (simp add: ins)
next
  case False
  show ?thesis
  proof (cases "media_cls (deref h m)")
    case Media
    from Media_add_result [OF assms(1,2,3)] obtain h1 where
      run: "Media_add h m (co_media out) = (Obj (length (media_objects h)), h1)" and g: "grown h h1"
      by blast
    have ins: "insert_media h out m = (out\<lparr>co_media := Obj (length (media_objects h))\<rparr>, h1)"
      using False Media by (simp add: insert_media_def media_plus_def run)
    from grown_frame [OF g assms(1,4)] show ?thesis by (simp add: ins)
  next
    case ImmutableMedia
    with False assms(3,4) show ?thesis
      by (cases "co_media out")
         (simp_all add: insert_media_def media_plus_def ImmutableMedia_add_eq deref_alloc_old)
  qed
qed

lemma insert_media_keeps_files:
  assumes "wf_heap h" and "valid_ref h m" and "valid_ref h (co_media out)"
    and "distinct (map fst (media_css (deref h m)))"
    and "distinct (map fst (media_css (deref h (co_media out))))"
    and "co_media out = empty_instance \<or> media_cls (deref h m) = Media
         \<or> (media_css (deref h m) = [] \<and> media_js (deref h m) = [])"
  shows "case insert_media h out m of (out', h') \<Rightarrow>
           set (media_js (deref h' (co_media out'))) =
             set (media_js (deref h m)) \<union> set (media_js (deref h (co_media out)))
         \<and> (\<forall>md p. css_has (media_css (deref h' (co_media out'))) md p \<longleftrightarrow>
                css_has (media_css (deref h m)) md p \<or> css_has (media_css (deref h (co_media out))) md p)"
proof (cases "co_media out = empty_instance")
  case True
  let ?E = "\<lparr>rep_cls = Media, rep_css = [], rep_js = []\<rparr>"
  let ?h0 = "h\<lparr>media_objects := media_objects h @ [?E]\<rparr>"
  let ?c = "Obj (length (media_objects h))"
  have wf0: "wf_heap ?h0" by (rule wf_heap_Media_new [OF assms(1)])
  have vc: "valid_ref ?h0 ?c" by (simp add: valid_ref_def)
  have vm: "valid_ref ?h0 m" using assms(2) by (cases m) (simp_all add: valid_ref_def)
  have fresh: "deref ?h0 ?c = \<lparr>media_cls = Media, media_css = [], media_js = []\<rparr>"
    by (simp add: deref_def css_contents_def)
  have m0: "deref ?h0 m = deref h m" by (rule deref_alloc_old [OF assms(2)])
  have d1: "distinct (map fst (media_css (deref ?h0 ?c)))" by (simp add: fresh)
  have d2: "distinct (map fst (media_css (deref ?h0 m)))" using assms(4) by (simp add: m0)
  have ins: "insert_media h out m =
               (case Media_add ?h0 ?c m of (r, h1) \<Rightarrow> (out\<lparr>co_media := r\<rparr>, h1))"
    using True by (simp add: insert_media_def Media_new_def alloc_def media_plus_def fresh)
  have none: "media_js (deref h (co_media out)) = []"
    "\<And>md p. \<not> css_has (media_css (deref h (co_media out))) md p"
    using True by (simp_all add: deref_def css_has_def)
  from Media_add_files [OF wf0 vc vm d1 d2] show ?thesis
    by (simp add: ins fresh m0 none css_has_empty split: prod.splits)
next
  case False
  show ?thesis
  proof (cases "media_cls (deref h m)")
    case Media
    from Media_add_files [OF assms(1,2,3,4,5)] False Media show ?thesis
      by (simp add: insert_media_def media_plus_def split: prod.splits)
  next
    case ImmutableMedia
    with assms(6) False have e: "media_css (deref h m) = []" "media_js (deref h m) = []" by simp_all
    from False obtain b where b: "co_media out = Obj b" by (cases "co_media out") simp_all
    with assms(3) have bv: "b < length (media_objects h)" by (simp add: valid_ref_def)
    have vb: "valid_ref h (Obj b)" using bv by (simp add: valid_ref_def)
    have ins: "insert_media h out m =
                 (out\<lparr>co_media := Obj (length (media_objects h))\<rparr>,
                  h\<lparr>media_objects := media_objects h
                       @ [\<lparr>rep_cls = Media, rep_css = rep_css (media_objects h ! b),
                            rep_js = rep_js (media_objects h ! b)\<rparr>]\<rparr>)"
      using ImmutableMedia b
      by (simp add: insert_media_def media_plus_def ImmutableMedia_add_eq [OF vb])
    show ?thesis
      by (simp add: ins b e css_has_empty) (simp add: deref_def css_contents_def)
  qed
qed

section \<open>Theorems about \<^verbatim>\<open>ContentItemTree.from_list\<close>\<close>


lemma map_of_setdefault_append:
  "map_of (setdefault_append k x d) k' =
     (if k' = k then Some ((case map_of d k of None \<Rightarrow> [] | Some xs \<Rightarrow> xs) @ [x]) else map_of d k')"
  by (simp add: setdefault_append_def update_conv' split: option.splits)

lemma distinct_setdefault_append:
  "distinct (map fst d) \<Longrightarrow> distinct (map fst (setdefault_append k x d))"
  by (simp add: setdefault_append_def distinct_update split: option.splits)

lemma index_items_parents:
  "map_of (fst (index_items H items (P, L))) k =
     (case map_of P k of
        None \<Rightarrow> (if group_of H items k = [] then None else Some (group_of H items k))
      | Some xs \<Rightarrow> Some (xs @ group_of H items k))"
proof (induction items arbitrary: P L)
  case Nil
  show ?case by (simp add: group_of_def split: option.splits)
next
  case (Cons item items)
  show ?case
    by (simp add: Cons.IH map_of_setdefault_append group_of_def split: option.splits)
qed

lemma index_items_distinct:
  "distinct (map fst P) \<Longrightarrow> distinct (map fst (fst (index_items H items (P, L))))"
  by (induction items arbitrary: P L) (simp_all add: distinct_setdefault_append)

lemma find_append_last:
  "List.find Q (xs @ [x]) = (case List.find Q xs of Some y \<Rightarrow> Some y | None \<Rightarrow> if Q x then Some x else None)"
  by (induction xs) simp_all

lemma index_items_lookup:
  "snd (index_items H items (P, L)) k =
     (case item_with_id H items k of Some item \<Rightarrow> Some item | None \<Rightarrow> L k)"
proof (induction items arbitrary: P L)
  case Nil
  show ?case by (simp add: item_with_id_def)
next
  case (Cons item items)
  show ?case
    by (simp add: Cons.IH) (simp add: item_with_id_def find_append_last split: option.splits)
qed

lemma find_SomeD: "List.find Q xs = Some x \<Longrightarrow> x \<in> set xs \<and> Q x"
  by (induction xs) (auto split: if_splits)

lemma item_with_id_Some:
  "item_with_id H items k = Some item \<Longrightarrow> item \<in> set items \<and> item_id (H item) = k"
  using find_SomeD [of "\<lambda>item. item_id (H item) = k" "rev items" item]
  by (simp add: item_with_id_def)

lemma item_with_id_None:
  "item_with_id H items k = None \<longleftrightarrow> (\<forall>item \<in> set items. item_id (H item) \<noteq> k)"
  by (auto simp: item_with_id_def find_None_iff)

lemma attach_children_error:
  "attach_children H lookup tp ph ps st = Inl e \<Longrightarrow> e = KeyError"
  by (induction ps arbitrary: st) (auto split: if_splits option.splits)

lemma attach_children_ok_iff:
  "(\<exists>st'. attach_children H lookup tp ph ps st = Inr st') \<longleftrightarrow>
   (\<forall>q \<in> set ps. fst q \<noteq> None \<and> fst q \<noteq> tp \<longrightarrow> lookup (fst q) \<noteq> None)"
proof (induction ps arbitrary: st)
  case Nil
  show ?case by simp
next
  case (Cons q ps)
  obtain k0 c0 where q: "q = (k0, c0)" by (cases q)
  show ?case
  proof (cases "k0 \<noteq> None \<and> k0 \<noteq> tp")
    case True
    show ?thesis
    proof (cases "lookup k0")
      case None
      then show ?thesis using True by (simp add: q)
    next
      case (Some p)
      then show ?thesis
        using True
          Cons.IH [of "set_children st p
                         (ContentItemTree_init (by_sort_order H c0) None ph (Some p))"]
        by (simp add: q)
    qed
  next
    case False
    then show ?thesis using Cons.IH [of st] by (auto simp add: q)
  qed
qed

lemma attach_children_other:
  "attach_children H lookup tp ph ps st = Inr st' \<Longrightarrow>
   (\<forall>q \<in> set ps. fst q \<noteq> None \<and> fst q \<noteq> tp \<longrightarrow> lookup (fst q) \<noteq> Some p) \<Longrightarrow> st' p = st p"
proof (induction ps arbitrary: st)
  case Nil
  then show ?case by simp
next
  case (Cons q ps)
  obtain k0 c0 where q: "q = (k0, c0)" by (cases q)
  have rest: "\<forall>q \<in> set ps. fst q \<noteq> None \<and> fst q \<noteq> tp \<longrightarrow> lookup (fst q) \<noteq> Some p"
    using Cons.prems(2) by simp
  show ?case
  proof (cases "k0 \<noteq> None \<and> k0 \<noteq> tp")
    case True
    then obtain p0 where p0: "lookup k0 = Some p0"
      using Cons.prems(1) by (cases "lookup k0") (simp_all add: q)
    have ne: "p0 \<noteq> p" using Cons.prems(2) True p0 by (auto simp: q)
    let ?st1 = "set_children st p0 (ContentItemTree_init (by_sort_order H c0) None ph (Some p0))"
    have "attach_children H lookup tp ph ps ?st1 = Inr st'"
      using Cons.prems(1) True p0 by (simp add: q)
    from Cons.IH [OF this rest] show ?thesis using ne by (simp add: set_children_def)
  next
    case False
    then have "attach_children H lookup tp ph ps st = Inr st'"
      using Cons.prems(1) by (auto simp: q)
    from Cons.IH [OF this rest] show ?thesis .
  qed
qed

lemma attach_children_target:
  assumes "attach_children H lookup tp ph ps st = Inr st'"
    and "distinct (map fst ps)"
    and "\<And>k k' p. lookup k = Some p \<Longrightarrow> lookup k' = Some p \<Longrightarrow> k = k'"
    and "(k, c) \<in> set ps" and "k \<noteq> None" and "k \<noteq> tp" and "lookup k = Some p"
  shows "st' p = Some (ContentItemTree_init (by_sort_order H c) None ph (Some p))"
  using assms(1,2,4)
proof (induction ps arbitrary: st)
  case Nil
  then show ?case by simp
next
  case (Cons q ps)
  obtain k0 c0 where q: "q = (k0, c0)" by (cases q)
  show ?case
  proof (cases "(k, c) = q")
    case True
    then have kc: "k0 = k" "c0 = c" using q by simp_all
    let ?st1 = "set_children st p (ContentItemTree_init (by_sort_order H c) None ph (Some p))"
    have run: "attach_children H lookup tp ph ps ?st1 = Inr st'"
      using Cons.prems(1) assms(5,6,7) by (simp add: q kc)
    have "\<forall>q' \<in> set ps. fst q' \<noteq> None \<and> fst q' \<noteq> tp \<longrightarrow> lookup (fst q') \<noteq> Some p"
    proof (intro ballI impI notI)
      fix q' assume in_ps: "q' \<in> set ps" and "lookup (fst q') = Some p"
      then have "fst q' = k" using assms(3) [of "fst q'" p k] assms(7) by simp
      moreover have "k \<notin> fst ` set ps" using Cons.prems(2) by (simp add: q kc)
      ultimately show False using in_ps by force
    qed
    from attach_children_other [OF run this] show ?thesis by (simp add: set_children_def)
  next
    case False
    then have in_ps: "(k, c) \<in> set ps" using Cons.prems(3) by simp
    have d: "distinct (map fst ps)" using Cons.prems(2) by simp
    from Cons.prems(1) obtain st1 where "attach_children H lookup tp ph ps st1 = Inr st'"
      by (auto simp: q split: if_splits option.splits)
    from Cons.IH [OF this d in_ps] show ?thesis .
  qed
qed


lemma index_items_run:
  "\<exists>parents lookup.
      index_items H items ([], Map.empty) = (parents, lookup)
    \<and> (\<forall>k. map_of parents k = (if group_of H items k = [] then None else Some (group_of H items k)))
    \<and> distinct (map fst parents)
    \<and> (\<forall>k. lookup k = item_with_id H items k)"
proof -
  obtain parents lookup where run: "index_items H items ([], Map.empty) = (parents, lookup)"
    by (cases "index_items H items ([], Map.empty)")
  have "\<forall>k. map_of parents k = (if group_of H items k = [] then None else Some (group_of H items k))"
    using index_items_parents [of H items "[]" Map.empty] by (simp add: run)
  moreover have "distinct (map fst parents)"
    using index_items_distinct [of "[]" H items Map.empty] by (simp add: run)
  moreover have "\<forall>k. lookup k = item_with_id H items k"
    using index_items_lookup [of H items "[]" Map.empty] by (simp add: run split: option.splits)
  ultimately show ?thesis using run by blast
qed

lemma group_of_nonempty: "group_of H items k \<noteq> [] \<longleftrightarrow> (\<exists>item \<in> set items. parent_item_id (H item) = k)"
  by (auto simp: group_of_def filter_empty_conv)

lemma from_list_result:
  assumes ne: "items \<noteq> []" and pre: "from_list_pre H items tp"
  shows "\<exists>st'. from_list H st items tp ph parent =
            Inr (ContentItemTree_init (by_sort_order H (group_of H items tp)) (Some items) ph parent, st')
       \<and> (\<forall>k. k \<noteq> None \<and> k \<noteq> tp \<and> group_of H items k \<noteq> [] \<longrightarrow>
             (\<exists>p. item_with_id H items k = Some p
                \<and> st' p = Some (ContentItemTree_init (by_sort_order H (group_of H items k)) None ph (Some p))))
       \<and> (\<forall>p. (\<forall>k. k \<noteq> None \<and> k \<noteq> tp \<and> group_of H items k \<noteq> [] \<longrightarrow> item_with_id H items k \<noteq> Some p)
             \<longrightarrow> st' p = st p)"
proof -
  from index_items_run [of H items] obtain parents lookup where
    run: "index_items H items ([], Map.empty) = (parents, lookup)"
    and par0: "\<forall>k. map_of parents k = (if group_of H items k = [] then None else Some (group_of H items k))"
    and dist: "distinct (map fst parents)"
    and look0: "\<forall>k. lookup k = item_with_id H items k"
    by blast
  have par: "map_of parents k = (if group_of H items k = [] then None else Some (group_of H items k))" for k
    using par0 by simp
  have look: "lookup k = item_with_id H items k" for k
    using look0 by simp
  have mem: "(k, c) \<in> set parents \<longleftrightarrow> group_of H items k \<noteq> [] \<and> c = group_of H items k" for k c
  proof -
    have "((k, c) \<in> set parents) = (map_of parents k = Some c)" using dist by simp
    then show ?thesis by (auto simp: par)
  qed
  have found: "\<exists>p. item_with_id H items k = Some p"
    if "k \<noteq> None" "k \<noteq> tp" "group_of H items k \<noteq> []" for k
  proof -
    from that(3) obtain item where "item \<in> set items" "parent_item_id (H item) = k"
      by (auto simp: group_of_nonempty)
    with pre ne that(1,2) have "\<exists>p \<in> set items. item_id (H p) = k"
      by (auto simp: from_list_pre_def)
    then have "item_with_id H items k \<noteq> None" by (simp add: item_with_id_None)
    then show ?thesis by auto
  qed
  have "\<forall>q \<in> set parents. fst q \<noteq> None \<and> fst q \<noteq> tp \<longrightarrow> lookup (fst q) \<noteq> None"
  proof (intro ballI impI)
    fix q assume q: "q \<in> set parents" and k: "fst q \<noteq> None \<and> fst q \<noteq> tp"
    from q have "group_of H items (fst q) \<noteq> []" using mem [of "fst q" "snd q"] by simp
    with k found [of "fst q"] show "lookup (fst q) \<noteq> None" by (auto simp: look)
  qed
  then obtain st' where att: "attach_children H lookup tp ph parents st = Inr st'"
    using attach_children_ok_iff [of H lookup tp ph parents st] by blast
  have root: "map_of parents tp = Some (group_of H items tp)"
    using pre ne by (simp add: par group_of_nonempty from_list_pre_def)
  have res: "from_list H st items tp ph parent =
      Inr (ContentItemTree_init (by_sort_order H (group_of H items tp)) (Some items) ph parent, st')"
    using ne by (simp add: from_list_def run att root)
  have inj: "k = k'" if "lookup k = Some p" "lookup k' = Some p" for k k' p
    using item_with_id_Some [of H items k p] item_with_id_Some [of H items k' p] that
    by (simp add: look)
  have tgt: "\<exists>p. item_with_id H items k = Some p
                \<and> st' p = Some (ContentItemTree_init (by_sort_order H (group_of H items k)) None ph (Some p))"
    if k: "k \<noteq> None \<and> k \<noteq> tp \<and> group_of H items k \<noteq> []" for k
  proof -
    from k found [of k] obtain p where p: "item_with_id H items k = Some p" by auto
    have in_parents: "(k, group_of H items k) \<in> set parents" using k by (simp add: mem)
    have "st' p = Some (ContentItemTree_init (by_sort_order H (group_of H items k)) None ph (Some p))"
    proof (rule attach_children_target [where k = k and c = "group_of H items k", OF att dist])
      show "ka = k'" if "lookup ka = Some pa" "lookup k' = Some pa" for ka k' pa
        using that by (rule inj)
      show "(k, group_of H items k) \<in> set parents" by (rule in_parents)
      show "k \<noteq> None" "k \<noteq> tp" using k by simp_all
      show "lookup k = Some p" using p by (simp add: look)
    qed
    with p show ?thesis by simp
  qed
  have oth: "st' p = st p"
    if "\<forall>k. k \<noteq> None \<and> k \<noteq> tp \<and> group_of H items k \<noteq> [] \<longrightarrow> item_with_id H items k \<noteq> Some p" for p
  proof -
    have "\<forall>q \<in> set parents. fst q \<noteq> None \<and> fst q \<noteq> tp \<longrightarrow> lookup (fst q) \<noteq> Some p"
    proof (intro ballI impI)
      fix q assume q: "q \<in> set parents" and k: "fst q \<noteq> None \<and> fst q \<noteq> tp"
      from q have "group_of H items (fst q) \<noteq> []" using mem [of "fst q" "snd q"] by simp
      with k that show "lookup (fst q) \<noteq> Some p" by (simp add: look)
    qed
    from attach_children_other [OF att this] show ?thesis .
  qed
  from res tgt oth show ?thesis by blast
qed

lemma from_list_fails:
  assumes "\<not> from_list_pre H items tp"
  shows "from_list H st items tp ph parent = Inl KeyError"
proof -
  from assms have ne: "items \<noteq> []" by (auto simp: from_list_pre_def)
  from index_items_run [of H items] obtain parents lookup where
    run: "index_items H items ([], Map.empty) = (parents, lookup)"
    and par0: "\<forall>k. map_of parents k = (if group_of H items k = [] then None else Some (group_of H items k))"
    and dist: "distinct (map fst parents)"
    and look0: "\<forall>k. lookup k = item_with_id H items k"
    by blast
  have par: "map_of parents k = (if group_of H items k = [] then None else Some (group_of H items k))" for k
    using par0 by simp
  have look: "lookup k = item_with_id H items k" for k
    using look0 by simp
  have mem: "(k, c) \<in> set parents \<longleftrightarrow> group_of H items k \<noteq> [] \<and> c = group_of H items k" for k c
  proof -
    have "((k, c) \<in> set parents) = (map_of parents k = Some c)" using dist by simp
    then show ?thesis by (auto simp: par)
  qed
  show ?thesis
  proof (cases "attach_children H lookup tp ph parents st")
    case (Inl e)
    then have "e = KeyError" by (rule attach_children_error)
    with Inl show ?thesis using ne by (simp add: from_list_def run)
  next
    case (Inr st')
    then have ok: "\<forall>q \<in> set parents. fst q \<noteq> None \<and> fst q \<noteq> tp \<longrightarrow> lookup (fst q) \<noteq> None"
      using attach_children_ok_iff [of H lookup tp ph parents st] by blast
    have "\<forall>item \<in> set items.
            parent_item_id (H item) \<noteq> None \<and> parent_item_id (H item) \<noteq> tp \<longrightarrow>
            (\<exists>p \<in> set items. item_id (H p) = parent_item_id (H item))"
    proof (intro ballI impI)
      fix item assume i: "item \<in> set items"
        and k: "parent_item_id (H item) \<noteq> None \<and> parent_item_id (H item) \<noteq> tp"
      let ?k = "parent_item_id (H item)"
      from i have "group_of H items ?k \<noteq> []" by (auto simp: group_of_nonempty)
      then have "(?k, group_of H items ?k) \<in> set parents" by (simp add: mem)
      with ok k have "lookup ?k \<noteq> None" by fastforce
      then show "\<exists>p \<in> set items. item_id (H p) = ?k"
        by (simp add: look item_with_id_None)
    qed
    with assms ne have "\<not> (\<exists>item \<in> set items. parent_item_id (H item) = tp)"
      by (simp add: from_list_pre_def)
    then have "map_of parents tp = None" by (simp add: par group_of_nonempty)
    with Inr show ?thesis using ne by (simp add: from_list_def run)
  qed
qed


lemma by_sort_order_sorted:
  "sorted (map (\<lambda>item. sort_order (H item)) (by_sort_order H xs)) \<and> mset (by_sort_order H xs) = mset xs"
  by (simp add: by_sort_order_def)

text \<open>
  C1, with the condition it needs. For a list that is not empty, has an item whose parent id is
  \<^verbatim>\<open>top_parent_id\<close>, and holds an item with id \<open>k\<close> for every parent id \<open>k\<close> other than \<^verbatim>\<open>None\<close> and
  \<^verbatim>\<open>top_parent_id\<close> that occurs in it, \<^verbatim>\<open>from_list\<close> returns the group of \<^verbatim>\<open>top_parent_id\<close> sorted by
  \<^verbatim>\<open>sort_order\<close> as the tree, with \<^verbatim>\<open>flat_items\<close> the whole list; for every other group whose key
  is not \<^verbatim>\<open>None\<close>, the item of the list with that id (the last one with it) has that group, sorted
  by \<^verbatim>\<open>sort_order\<close>, as its children, in a tree whose \<^verbatim>\<open>parent_item\<close> it is; the children of every
  other item are what they were. Sorting gives an ascending list with the same items. For the
  empty list the result is the empty tree.
\<close>

theorem from_list_builds_tree:
  "(items \<noteq> [] \<and> from_list_pre H items tp \<longrightarrow>
      (\<exists>st'. from_list H st items tp ph parent =
                Inr (\<lparr>tree_items = by_sort_order H (group_of H items tp), flat_items = Some items,
                      tree_placeholder = ph, tree_parent_item = parent\<rparr>, st')
           \<and> (\<forall>k. k \<noteq> None \<and> k \<noteq> tp \<and> group_of H items k \<noteq> [] \<longrightarrow>
                 (\<exists>p. item_with_id H items k = Some p
                    \<and> st' p = Some \<lparr>tree_items = by_sort_order H (group_of H items k),
                                    flat_items = None, tree_placeholder = ph,
                                    tree_parent_item = Some p\<rparr>))
           \<and> (\<forall>p. (\<forall>k. k \<noteq> None \<and> k \<noteq> tp \<and> group_of H items k \<noteq> []
                         \<longrightarrow> item_with_id H items k \<noteq> Some p)
                 \<longrightarrow> st' p = st p)))
   \<and> (\<forall>k. sorted (map (\<lambda>item. sort_order (H item)) (by_sort_order H (group_of H items k)))
          \<and> mset (by_sort_order H (group_of H items k)) = mset (group_of H items k))
   \<and> from_list H st [] tp ph parent =
       Inr (\<lparr>tree_items = [], flat_items = None, tree_placeholder = ph,
             tree_parent_item = parent\<rparr>, st)"
proof (intro conjI impI allI)
  assume "items \<noteq> [] \<and> from_list_pre H items tp"
  then show "\<exists>st'. from_list H st items tp ph parent =
                Inr (\<lparr>tree_items = by_sort_order H (group_of H items tp), flat_items = Some items,
                      tree_placeholder = ph, tree_parent_item = parent\<rparr>, st')
           \<and> (\<forall>k. k \<noteq> None \<and> k \<noteq> tp \<and> group_of H items k \<noteq> [] \<longrightarrow>
                 (\<exists>p. item_with_id H items k = Some p
                    \<and> st' p = Some \<lparr>tree_items = by_sort_order H (group_of H items k),
                                    flat_items = None, tree_placeholder = ph,
                                    tree_parent_item = Some p\<rparr>))
           \<and> (\<forall>p. (\<forall>k. k \<noteq> None \<and> k \<noteq> tp \<and> group_of H items k \<noteq> []
                         \<longrightarrow> item_with_id H items k \<noteq> Some p)
                 \<longrightarrow> st' p = st p)"
    using from_list_result [of items H tp st ph parent]
    by (simp add: ContentItemTree_init_def)
next
  fix k
  show "sorted (map (\<lambda>item. sort_order (H item)) (by_sort_order H (group_of H items k)))"
    by (simp add: by_sort_order_sorted)
  show "mset (by_sort_order H (group_of H items k)) = mset (group_of H items k)"
    by (simp add: by_sort_order_sorted)
next
  show "from_list H st [] tp ph parent =
       Inr (\<lparr>tree_items = [], flat_items = None, tree_placeholder = ph,
             tree_parent_item = parent\<rparr>, st)"
    by (simp add: from_list_def ContentItemTree_init_def)
qed

lemma example_pre: "from_list_pre example_heap [0, 2, 3, 4] None"
  by (simp add: from_list_pre_def example_heap_def)

theorem from_list_builds_tree_witness:
  "from_list_pre example_heap [0, 2, 3, 4] None
   \<and> (\<exists>st'. from_list example_heap Map.empty [0, 2, 3, 4] None (None :: nat option) None =
               Inr (\<lparr>tree_items = [2, 0], flat_items = Some [0, 2, 3, 4],
                     tree_placeholder = None, tree_parent_item = None\<rparr>, st')
           \<and> st' 0 = Some \<lparr>tree_items = [4, 3], flat_items = None, tree_placeholder = None,
                           tree_parent_item = Some 0\<rparr>)"
proof -
  have grp: "group_of example_heap [0, 2, 3, 4] None = [0, 2]"
    "group_of example_heap [0, 2, 3, 4] (Some 10) = [3, 4]"
    by (simp_all add: group_of_def example_heap_def)
  have srt: "by_sort_order example_heap [0, 2] = [2, 0]" "by_sort_order example_heap [3, 4] = [4, 3]"
    by (simp_all add: by_sort_order_def example_heap_def)
  have iwi: "item_with_id example_heap [0, 2, 3, 4] (Some 10) = Some 0"
    by (simp add: item_with_id_def example_heap_def)
  from from_list_builds_tree [of "[0, 2, 3, 4]" example_heap None Map.empty "None :: nat option" None]
    example_pre
  obtain st' where
    r: "from_list example_heap Map.empty [0, 2, 3, 4] None (None :: nat option) None =
         Inr (\<lparr>tree_items = by_sort_order example_heap (group_of example_heap [0, 2, 3, 4] None),
               flat_items = Some [0, 2, 3, 4], tree_placeholder = None, tree_parent_item = None\<rparr>, st')"
    and c: "\<forall>k. k \<noteq> None \<and> k \<noteq> None \<and> group_of example_heap [0, 2, 3, 4] k \<noteq> [] \<longrightarrow>
                 (\<exists>p. item_with_id example_heap [0, 2, 3, 4] k = Some p
                    \<and> st' p = Some \<lparr>tree_items = by_sort_order example_heap (group_of example_heap [0, 2, 3, 4] k),
                                    flat_items = None, tree_placeholder = None,
                                    tree_parent_item = Some p\<rparr>)"
    by auto
  from c [rule_format, of "Some 10"] have "st' 0 = Some \<lparr>tree_items = [4, 3], flat_items = None, tree_placeholder = None,
                           tree_parent_item = Some 0\<rparr>"
    by (simp add: grp srt iwi)
  with r example_pre show ?thesis by (auto simp: grp srt)
qed

text \<open>
  C1 as it is stated, for every list that is not empty, fails: with one item and a
  \<^verbatim>\<open>top_parent_id\<close> that is no item's parent, \<^verbatim>\<open>parents[top_parent_id]\<close> raises \<^verbatim>\<open>KeyError\<close>; with
  one item whose parent id no item has, \<^verbatim>\<open>lookup[parent_id]\<close> raises \<^verbatim>\<open>KeyError\<close>.
\<close>

theorem from_list_raises_counterexample:
  "from_list (\<lambda>item. \<lparr>item_id = Some 1, parent_item_id = None, sort_order = 0\<rparr>) Map.empty
      [0] (Some 7) (None :: nat option) None = Inl KeyError
   \<and> from_list (\<lambda>item. \<lparr>item_id = Some 1, parent_item_id = Some 5, sort_order = 0\<rparr>) Map.empty
      [0] None (None :: nat option) None = Inl KeyError"
  by (simp add: from_list_def setdefault_append_def)

text \<open>
  C8. Under the precondition (the list is empty, or it has an item whose parent id is
  \<^verbatim>\<open>top_parent_id\<close> and every parent id other than \<^verbatim>\<open>None\<close> and \<^verbatim>\<open>top_parent_id\<close> is the id of an item
  of the list) \<^verbatim>\<open>from_list\<close> returns a tree; without it, it raises \<^verbatim>\<open>KeyError\<close>.
\<close>

theorem from_list_total_iff_pre:
  "(from_list_pre H items tp \<longrightarrow>
      (\<exists>tree st'. from_list H st items tp ph parent = Inr (tree, st')))
   \<and> (\<not> from_list_pre H items tp \<longrightarrow> from_list H st items tp ph parent = Inl KeyError)"
proof (intro conjI impI)
  assume pre: "from_list_pre H items tp"
  show "\<exists>tree st'. from_list H st items tp ph parent = Inr (tree, st')"
  proof (cases "items = []")
    case True
    then show ?thesis by (simp add: from_list_def)
  next
    case False
    from from_list_result [OF False pre, of st ph parent] show ?thesis by blast
  qed
next
  assume "\<not> from_list_pre H items tp"
  then show "from_list H st items tp ph parent = Inl KeyError" by (rule from_list_fails)
qed

theorem from_list_total_iff_pre_witness:
  "from_list_pre example_heap [0, 2, 3, 4] None
   \<and> (\<exists>tree st'. from_list example_heap Map.empty [0, 2, 3, 4] None (None :: nat option) None
                    = Inr (tree, st'))
   \<and> \<not> from_list_pre example_heap [3, 4] None
   \<and> from_list example_heap Map.empty [3, 4] None (None :: nat option) None = Inl KeyError
   \<and> \<not> from_list_pre example_heap [0, 2, 3, 4] (Some 12)
   \<and> from_list example_heap Map.empty [0, 2, 3, 4] (Some 12) (None :: nat option) None = Inl KeyError"
proof -
  have a: "\<not> from_list_pre example_heap [3, 4] None"
    by (simp add: from_list_pre_def example_heap_def)
  have b: "\<not> from_list_pre example_heap [0, 2, 3, 4] (Some 12)"
    by (simp add: from_list_pre_def example_heap_def)
  show ?thesis
    using from_list_total_iff_pre [of example_heap "[0, 2, 3, 4]" None Map.empty "None :: nat option" None]
      from_list_total_iff_pre [of example_heap "[3, 4]" None Map.empty "None :: nat option" None]
      from_list_total_iff_pre [of example_heap "[0, 2, 3, 4]" "Some 12" Map.empty "None :: nat option" None]
      example_pre a b
    by simp
qed


section \<open>Theorems about \<^verbatim>\<open>get_form_class\<close>\<close>

lemma foldl_update_distinct:
  "distinct (map fst (d0 @ ps)) \<Longrightarrow> foldl (\<lambda>d (k, v). AList.update k v d) d0 ps = d0 @ ps"
proof (induction ps arbitrary: d0)
  case Nil
  show ?case by simp
next
  case (Cons p ps)
  obtain k v where p: "p = (k, v)" by (cases p)
  have new: "k \<notin> fst ` set d0" using Cons.prems by (auto simp: p)
  have "distinct (map fst ((d0 @ [(k, v)]) @ ps))" using Cons.prems by (simp add: p)
  from Cons.IH [OF this] show ?case by (simp add: p update_new_key [OF new])
qed

lemma py_dict_distinct: "distinct (map fst ps) \<Longrightarrow> py_dict ps = ps"
  using foldl_update_distinct [of "[]" ps] by (simp add: py_dict_def)

lemma collect_items_ok:
  "set ks \<subseteq> fst ` set d \<Longrightarrow> collect_items d ks = Inr (map (\<lambda>k. (k, the (map_of d k))) ks)"
proof (induction ks)
  case Nil
  show ?case by simp
next
  case (Cons k ks)
  then have "k \<in> fst ` set d" by simp
  then obtain v where "map_of d k = Some v"
    by (metis domD dom_map_of_conv_image_fst)
  with Cons show ?case by simp
qed

lemma collect_items_missing:
  "\<not> set ks \<subseteq> fst ` set d \<Longrightarrow> collect_items d ks = Inl KeyError"
proof (induction ks)
  case Nil
  then show ?case by simp
next
  case (Cons k ks)
  show ?case
  proof (cases "map_of d k")
    case None
    then show ?thesis by simp
  next
    case (Some v)
    then have "k \<in> fst ` set d" by (metis domI dom_map_of_conv_image_fst)
    with Cons.prems have "\<not> set ks \<subseteq> fst ` set d" by simp
    from Cons.IH [OF this] Some show ?thesis by simp
  qed
qed

lemma rest_pairs:
  "map (\<lambda>k. (k, the (map_of d k))) [f \<leftarrow> map fst d. Q f] = [p \<leftarrow> d. Q (fst p)]"
  if "distinct (map fst d)"
  using that
proof (induction d)
  case Nil
  show ?case by simp
next
  case (Cons p d)
  obtain k v where p: "p = (k, v)" by (cases p)
  have "map (\<lambda>k'. (k', the (map_of ((k, v) # d) k'))) [f \<leftarrow> map fst d. Q f]
        = map (\<lambda>k'. (k', the (map_of d k'))) [f \<leftarrow> map fst d. Q f]"
    using Cons.prems by (auto simp: p)
  with Cons show ?case by (simp add: p)
qed

lemma first_pairs_mset:
  assumes "distinct (map fst d)" and "distinct ks" and "set ks \<subseteq> fst ` set d"
  shows "mset (map (\<lambda>k. (k, the (map_of d k))) ks) = mset [p \<leftarrow> d. fst p \<in> set ks]"
proof -
  let ?l = "map (\<lambda>k. (k, the (map_of d k))) ks"
  let ?r = "[p \<leftarrow> d. fst p \<in> set ks]"
  have dl: "distinct ?l" using assms(2) by (simp add: distinct_map inj_on_def)
  have dr: "distinct ?r" using assms(1) by (simp add: distinct_map distinct_filter)
  have st: "set ?l = set ?r"
  proof (intro set_eqI iffI)
    fix p assume "p \<in> set ?l"
    then obtain k where k: "k \<in> set ks" "p = (k, the (map_of d k))" by auto
    with assms(3) obtain v where "map_of d k = Some v"
      by (metis domD dom_map_of_conv_image_fst subsetD)
    then show "p \<in> set ?r" using k by (auto dest: map_of_SomeD)
  next
    fix p assume "p \<in> set ?r"
    then have in_d: "p \<in> set d" and in_ks: "fst p \<in> set ks" by simp_all
    from in_d assms(1) have "map_of d (fst p) = Some (snd p)" by simp
    then have eq: "p = (fst p, the (map_of d (fst p)))" by simp
    from eq in_ks show "p \<in> set ?l" unfolding set_map by (rule image_eqI)
  qed
  from set_eq_iff_mset_eq_distinct [OF dl dr] st show ?thesis by blast
qed

text \<open>
  C5. When the \<^verbatim>\<open>base_fields\<close> of the generated form have all the keys of
  \<^verbatim>\<open>ContentItemForm.base_fields\<close>, \<^verbatim>\<open>get_form_class\<close> returns the form with \<^verbatim>\<open>base_fields\<close>
  reordered: the keys of \<^verbatim>\<open>ContentItemForm\<close> first, in its order, then the other fields in the
  order they had. The new \<^verbatim>\<open>base_fields\<close> are a permutation of the old ones and map every name
  to the field object it had, and the rest of the form is unchanged. (Both dictionaries have
  pairwise different keys, as every dictionary has.)
\<close>

theorem get_form_class_reorders:
  assumes "distinct (map fst (base_fields form))"
    and "distinct ContentItemForm_keys"
    and "set ContentItemForm_keys \<subseteq> fst ` set (base_fields form)"
  shows "\<exists>form'. get_form_class ContentItemForm_keys form = Inr form'
       \<and> base_fields form' =
           map (\<lambda>k. (k, the (map_of (base_fields form) k))) ContentItemForm_keys
           @ [p \<leftarrow> base_fields form. fst p \<notin> set ContentItemForm_keys]
       \<and> dict_keys (base_fields form') =
           ContentItemForm_keys @ [f \<leftarrow> dict_keys (base_fields form). f \<notin> set ContentItemForm_keys]
       \<and> mset (base_fields form') = mset (base_fields form)
       \<and> map_of (base_fields form') = map_of (base_fields form)
       \<and> form_name form' = form_name form"
proof -
  let ?bf = "base_fields form"
  let ?first = ContentItemForm_keys
  let ?rest = "[f \<leftarrow> dict_keys ?bf. f \<notin> set ?first]"
  let ?pairs = "map (\<lambda>k. (k, the (map_of ?bf k))) (?first @ ?rest)"
  have sub: "set (?first @ ?rest) \<subseteq> fst ` set ?bf"
    using assms(3) by (auto simp: dict_keys_def)
  have col: "collect_items ?bf (?first @ ?rest) = Inr ?pairs"
    by (rule collect_items_ok [OF sub])
  have dk: "distinct (?first @ ?rest)"
    using assms(1,2) by (auto simp: dict_keys_def)
  have "map fst ?pairs = ?first @ ?rest" by (simp add: comp_def)
  with dk have dp: "distinct (map fst ?pairs)" by simp
  have res: "get_form_class ?first form = Inr (form\<lparr>base_fields := ?pairs\<rparr>)"
    using col py_dict_distinct [OF dp] by (simp add: get_form_class_def Let_def)
  have split: "?pairs = map (\<lambda>k. (k, the (map_of ?bf k))) ?first @ [p \<leftarrow> ?bf. fst p \<notin> set ?first]"
    using rest_pairs [OF assms(1), of "\<lambda>f. f \<notin> set ?first"] by (simp add: dict_keys_def)
  have keys: "dict_keys ?pairs = ?first @ ?rest" by (simp add: dict_keys_def comp_def)
  have ms: "mset ?pairs = mset ?bf"
  proof -
    have "mset ?pairs = mset [p \<leftarrow> ?bf. fst p \<in> set ?first] + mset [p \<leftarrow> ?bf. fst p \<notin> set ?first]"
      by (simp only: split mset_append first_pairs_mset [OF assms])
    then show ?thesis by simp
  qed
  have mo: "map_of ?pairs = map_of ?bf"
    using ms assms(1) dp by (metis map_of_inject_set mset_eq_setD)
  from res split keys ms mo show ?thesis by simp
qed


theorem get_form_class_reorders_witness:
  "distinct (map fst (base_fields gist_form))
   \<and> distinct BASE_FIELDS
   \<and> set BASE_FIELDS \<subseteq> fst ` set (base_fields gist_form)
   \<and> (\<exists>form'. get_form_class BASE_FIELDS gist_form = Inr form'
         \<and> form_name form' = ''GistItemForm''
         \<and> base_fields form' =
             [(''polymorphic_ctype'', 6), (''placeholder'', 2), (''placeholder_slot'', 5),
              (''parent_item'', 7), (''parent_item_uid'', 8), (''sort_order'', 4),
              (''gist_id'', 0), (''filename'', 3)])"
proof -
  have d1: "distinct (map fst (base_fields gist_form))"
    by (simp add: gist_form_def)
  have d2: "distinct BASE_FIELDS"
    by (simp add: BASE_FIELDS_def)
  have sub: "set BASE_FIELDS \<subseteq> fst ` set (base_fields gist_form)"
    by (simp add: BASE_FIELDS_def gist_form_def)
  have val: "map (\<lambda>k. (k, the (map_of (base_fields gist_form) k))) BASE_FIELDS
             @ [p \<leftarrow> base_fields gist_form. fst p \<notin> set BASE_FIELDS]
             = [(''polymorphic_ctype'', 6), (''placeholder'', 2), (''placeholder_slot'', 5),
                (''parent_item'', 7), (''parent_item_uid'', 8), (''sort_order'', 4),
                (''gist_id'', 0), (''filename'', 3)]"
    by (simp add: BASE_FIELDS_def gist_form_def)
  have name: "form_name gist_form = ''GistItemForm''"
    by (simp add: gist_form_def)
  from get_form_class_reorders [OF d1 d2 sub] obtain form' where
    "get_form_class BASE_FIELDS gist_form = Inr form'"
    "base_fields form' =
       map (\<lambda>k. (k, the (map_of (base_fields gist_form) k))) BASE_FIELDS
       @ [p \<leftarrow> base_fields gist_form. fst p \<notin> set BASE_FIELDS]"
    "form_name form' = form_name gist_form"
    by blast
  with d1 d2 sub val name show ?thesis by simp
qed


section \<open>Theorems about saving a formset\<close>

lemma get_by_slot_slot: "get_by_slot rows s = Inr p \<Longrightarrow> ph_slot p = s \<and> p \<in> set rows"
proof -
  assume a: "get_by_slot rows s = Inr p"
  then have "filter (\<lambda>p. ph_slot p = s) rows = [p]"
    by (auto simp: get_by_slot_def split: list.splits)
  then have "p \<in> set (filter (\<lambda>p. ph_slot p = s) rows)" by simp
  then show ?thesis by simp
qed

lemma desired_placeholder_found:
  assumes "cache_consistent self" and "get_by_slot (parent_placeholders self) s = Inr p"
  shows "\<exists>self'. desired_placeholder self s = Inr (p, self') \<and> cache_consistent self'
     \<and> parent_placeholders self' = parent_placeholders self
     \<and> deleted_placeholders self' = deleted_placeholders self
     \<and> current_language self' = current_language self"
proof (cases "placeholders_by_slot self s")
  case None
  then show ?thesis using assms by (simp add: desired_placeholder_def cache_consistent_def)
next
  case (Some q)
  with assms have "q = p" by (auto simp: cache_consistent_def)
  with Some assms(1) show ?thesis by (simp add: desired_placeholder_def)
qed

lemma desired_placeholder_missing:
  assumes "cache_consistent self" and "get_by_slot (parent_placeholders self) s = Inl e"
  shows "desired_placeholder self s = Inl e"
proof (cases "placeholders_by_slot self s")
  case None
  then show ?thesis using assms by (simp add: desired_placeholder_def)
next
  case (Some q)
  with assms show ?thesis by (auto simp: cache_consistent_def)
qed

lemma set_placeholder_id_lookup:
  assumes "cleaned_placeholder_slot form = Some s" and "s \<noteq> []"
    and "cleaned_placeholder form = None \<or> (\<exists>q. cleaned_placeholder form = Some q \<and> ph_slot q \<noteq> s)"
  shows "set_placeholder_id self form =
           (case desired_placeholder self s of
              Inl e \<Rightarrow> Inl e
            | Inr (desired, self') \<Rightarrow>
                Inr (self', form\<lparr>cleaned_placeholder := Some desired,
                                 form_row := assign_placeholder (Some desired) (form_row form)\<rparr>))"
proof (cases "cleaned_placeholder form")
  case None
  then show ?thesis using assms(1,2) by (simp add: set_placeholder_id_def)
next
  case (Some q)
  with assms(3) have "ph_slot q \<noteq> s" by simp
  with Some show ?thesis using assms(1,2) by (simp add: set_placeholder_id_def)
qed

lemma set_placeholder_id_same_slot:
  assumes "cleaned_placeholder_slot form = Some s" and "s \<noteq> []"
    and "cleaned_placeholder form = Some q" and "ph_slot q = s"
  shows "set_placeholder_id self form =
         (if \<exists>i. row_placeholder_id (form_row form) = Some i \<and> i \<in> set (deleted_placeholders self)
          then Inr (self, form\<lparr>cleaned_placeholder := None,
                               form_row := assign_placeholder None (form_row form)\<rparr>)
          else Inr (self, form))"
proof (cases "row_placeholder_id (form_row form)")
  case None
  then show ?thesis using assms by (simp add: set_placeholder_id_def)
next
  case (Some i)
  then show ?thesis using assms by (simp add: set_placeholder_id_def)
qed

lemma desired_placeholder_language:
  "desired_placeholder self s = Inr (p, self') \<Longrightarrow> current_language self' = current_language self"
  by (cases "placeholders_by_slot self s"; cases "get_by_slot (parent_placeholders self) s")
     (auto simp: desired_placeholder_def)

lemma set_placeholder_id_language:
  assumes "set_placeholder_id self form = Inr (self', form')"
  shows "current_language self' = current_language self"
proof (cases "cleaned_placeholder_slot form")
  case None
  with assms show ?thesis by (simp add: set_placeholder_id_def)
next
  case (Some s)
  show ?thesis
  proof (cases "s = []")
    case True
    with Some assms show ?thesis by (simp add: set_placeholder_id_def)
  next
    case False
    show ?thesis
    proof (cases "cleaned_placeholder form = None \<or> (\<exists>q. cleaned_placeholder form = Some q \<and> ph_slot q \<noteq> s)")
      case True
      from set_placeholder_id_lookup [OF Some False True, of self] assms
      obtain d where "desired_placeholder self s = Inr (d, self')"
        by (cases "desired_placeholder self s") auto
      then show ?thesis by (rule desired_placeholder_language)
    next
      case F: False
      then obtain q where q: "cleaned_placeholder form = Some q" "ph_slot q = s" by auto
      from set_placeholder_id_same_slot [OF Some False q, of self] assms
      have "self' = self" by (simp split: if_splits)
      then show ?thesis by simp
    qed
  qed
qed

lemma cache_consistent_init: "cache_consistent (BaseContentItemFormSet_init language rows)"
  by (simp add: cache_consistent_def BaseContentItemFormSet_init_def)

text \<open>
  C3, with the two conditions as the code has them. For a form whose cleaned slot \<open>s\<close> is not
  empty, in a formset whose cache holds what the database returned:
  when the selected placeholder is absent or has another slot, the placeholder of the parent
  with slot \<open>s\<close> is looked up; if the parent has exactly one, \<^verbatim>\<open>cleaned_data['placeholder']\<close> and
  the row's placeholder are both set to it, and if the lookup fails, its exception is raised;
  when the selected placeholder has slot \<open>s\<close>, both are set to \<^verbatim>\<open>None\<close> if the placeholder id of the
  row (\<^verbatim>\<open>form.instance.placeholder_id\<close>) is among the deleted ones, and the form is left as it is
  otherwise.
  \<^verbatim>\<open>save_new\<close> does this whatever \<^verbatim>\<open>commit\<close> is and then sets the language of the row;
  \<^verbatim>\<open>save_existing\<close> does it when \<^verbatim>\<open>commit\<close> is true and leaves the form alone when it is false.
\<close>

theorem set_placeholder_id_attributes:
  assumes "cleaned_placeholder_slot form = Some s" and "s \<noteq> []" and "cache_consistent self"
  shows
   "((cleaned_placeholder form = None \<or> (\<exists>q. cleaned_placeholder form = Some q \<and> ph_slot q \<noteq> s)) \<longrightarrow>
       (\<forall>p. get_by_slot (parent_placeholders self) s = Inr p \<longrightarrow>
          ph_slot p = s \<and> p \<in> set (parent_placeholders self) \<and>
          (\<exists>self'. set_placeholder_id self form =
                     Inr (self', form\<lparr>cleaned_placeholder := Some p,
                                      form_row := assign_placeholder (Some p) (form_row form)\<rparr>)
                 \<and> cache_consistent self'))
     \<and> (\<forall>e. get_by_slot (parent_placeholders self) s = Inl e \<longrightarrow> set_placeholder_id self form = Inl e))
  \<and> ((\<exists>q. cleaned_placeholder form = Some q \<and> ph_slot q = s) \<longrightarrow>
       set_placeholder_id self form =
         (if \<exists>i. row_placeholder_id (form_row form) = Some i \<and> i \<in> set (deleted_placeholders self)
          then Inr (self, form\<lparr>cleaned_placeholder := None,
                               form_row := assign_placeholder None (form_row form)\<rparr>)
          else Inr (self, form)))
  \<and> save_new self form commit =
       (case set_placeholder_id self form of
          Inl e \<Rightarrow> Inl e
        | Inr (self', form') \<Rightarrow>
            Inr \<lparr>saved_formset = self',
                 saved_form = form'\<lparr>form_row := (form_row form')\<lparr>row_language_code := current_language self\<rparr>\<rparr>,
                 returned_row = (form_row form')\<lparr>row_language_code := current_language self\<rparr>,
                 written = commit\<rparr>)
  \<and> save_existing self form True =
       (case set_placeholder_id self form of
          Inl e \<Rightarrow> Inl e
        | Inr (self', form') \<Rightarrow>
            Inr \<lparr>saved_formset = self', saved_form = form', returned_row = form_row form',
                 written = True\<rparr>)
  \<and> save_existing self form False =
       Inr \<lparr>saved_formset = self, saved_form = form, returned_row = form_row form, written = False\<rparr>"
proof -
  have A: "ph_slot p = s \<and> p \<in> set (parent_placeholders self) \<and>
          (\<exists>self'. set_placeholder_id self form =
                     Inr (self', form\<lparr>cleaned_placeholder := Some p,
                                      form_row := assign_placeholder (Some p) (form_row form)\<rparr>)
                 \<and> cache_consistent self')"
    if sel: "cleaned_placeholder form = None \<or> (\<exists>q. cleaned_placeholder form = Some q \<and> ph_slot q \<noteq> s)"
      and got: "get_by_slot (parent_placeholders self) s = Inr p" for p
  proof -
    from desired_placeholder_found [OF assms(3) got] obtain self' where
      d: "desired_placeholder self s = Inr (p, self')" and c: "cache_consistent self'" by blast
    have "set_placeholder_id self form =
            Inr (self', form\<lparr>cleaned_placeholder := Some p,
                             form_row := assign_placeholder (Some p) (form_row form)\<rparr>)"
      by (simp add: set_placeholder_id_lookup [OF assms(1,2) sel] d)
    with c get_by_slot_slot [OF got] show ?thesis by blast
  qed
  have B: "set_placeholder_id self form = Inl e"
    if sel: "cleaned_placeholder form = None \<or> (\<exists>q. cleaned_placeholder form = Some q \<and> ph_slot q \<noteq> s)"
      and miss: "get_by_slot (parent_placeholders self) s = Inl e" for e
    by (simp add: set_placeholder_id_lookup [OF assms(1,2) sel]
        desired_placeholder_missing [OF assms(3) miss])
  have C: "set_placeholder_id self form =
         (if \<exists>i. row_placeholder_id (form_row form) = Some i \<and> i \<in> set (deleted_placeholders self)
          then Inr (self, form\<lparr>cleaned_placeholder := None,
                               form_row := assign_placeholder None (form_row form)\<rparr>)
          else Inr (self, form))"
    if "\<exists>q. cleaned_placeholder form = Some q \<and> ph_slot q = s"
  proof -
    from that obtain q where q: "cleaned_placeholder form = Some q" "ph_slot q = s" by blast
    show ?thesis by (rule set_placeholder_id_same_slot [OF assms(1,2) q])
  qed
  have D: "save_new self form commit =
       (case set_placeholder_id self form of
          Inl e \<Rightarrow> Inl e
        | Inr (self', form') \<Rightarrow>
            Inr \<lparr>saved_formset = self',
                 saved_form = form'\<lparr>form_row := (form_row form')\<lparr>row_language_code := current_language self\<rparr>\<rparr>,
                 returned_row = (form_row form')\<lparr>row_language_code := current_language self\<rparr>,
                 written = commit\<rparr>)"
  proof (cases "set_placeholder_id self form")
    case (Inl e)
    then show ?thesis by (simp add: save_new_def)
  next
    case (Inr r)
    obtain self' form' where r: "r = (self', form')" by (cases r)
    from Inr r set_placeholder_id_language [of self form self' form']
    show ?thesis by (simp add: save_new_def Let_def)
  qed
  have E: "save_existing self form True =
       (case set_placeholder_id self form of
          Inl e \<Rightarrow> Inl e
        | Inr (self', form') \<Rightarrow>
            Inr \<lparr>saved_formset = self', saved_form = form', returned_row = form_row form',
                 written = True\<rparr>)"
    by (simp add: save_existing_def)
  have F: "save_existing self form False =
       Inr \<lparr>saved_formset = self, saved_form = form, returned_row = form_row form, written = False\<rparr>"
    by (simp add: save_existing_def)
  from A B C D E F show ?thesis by blast
qed


theorem set_placeholder_id_attributes_witness:
  "cleaned_placeholder_slot new_form = Some ''main''
   \<and> cache_consistent example_formset
   \<and> get_by_slot (parent_placeholders example_formset) ''main'' = Inr main_placeholder
   \<and> (\<exists>self'. set_placeholder_id example_formset new_form =
                Inr (self', new_form\<lparr>cleaned_placeholder := Some main_placeholder,
                                     form_row := assign_placeholder (Some main_placeholder)
                                                   (form_row new_form)\<rparr>))
   \<and> set_placeholder_id example_formset orphaned_form =
        Inr (example_formset,
             orphaned_form\<lparr>cleaned_placeholder := None,
                            form_row := assign_placeholder None (form_row orphaned_form)\<rparr>)"
proof -
  have slot: "cleaned_placeholder_slot new_form = Some ''main''"
    "cleaned_placeholder_slot orphaned_form = Some ''main''"
    by (simp_all add: new_form_def orphaned_form_def)
  have ne: "''main'' \<noteq> []" by simp
  have cache: "cache_consistent example_formset"
    by (simp add: cache_consistent_def example_formset_def BaseContentItemFormSet_init_def)
  have got: "get_by_slot (parent_placeholders example_formset) ''main'' = Inr main_placeholder"
    by (simp add: get_by_slot_def example_formset_def BaseContentItemFormSet_init_def
        main_placeholder_def sidebar_placeholder_def)
  have sel: "cleaned_placeholder new_form = None" by (simp add: new_form_def)
  have orph: "\<exists>q. cleaned_placeholder orphaned_form = Some q \<and> ph_slot q = ''main''"
    by (simp add: orphaned_form_def old_placeholder_def)
  have del: "\<exists>i. row_placeholder_id (form_row orphaned_form) = Some i
                \<and> i \<in> set (deleted_placeholders example_formset)"
    by (simp add: orphaned_form_def example_formset_def)
  from set_placeholder_id_attributes [OF slot(1) ne cache, of True] sel got
  have a: "\<exists>self'. set_placeholder_id example_formset new_form =
                Inr (self', new_form\<lparr>cleaned_placeholder := Some main_placeholder,
                                     form_row := assign_placeholder (Some main_placeholder)
                                                   (form_row new_form)\<rparr>)"
    by blast
  from set_placeholder_id_attributes [OF slot(2) ne cache, of True] orph del
  have b: "set_placeholder_id example_formset orphaned_form =
        Inr (example_formset,
             orphaned_form\<lparr>cleaned_placeholder := None,
                            form_row := assign_placeholder None (form_row orphaned_form)\<rparr>)"
    by simp
  from slot(1) cache got a b show ?thesis by simp
qed

text \<open>
  C3 as it is stated fails in two places. For a parent without a placeholder of the slot, the
  lookup raises \<^verbatim>\<open>DoesNotExist\<close> and nothing is assigned. And the test for a deleted placeholder
  reads the id of the row's placeholder, not the id of the selected one: the selected
  placeholder of \<open>moved_form\<close> has the slot and its id 5 is among the deleted ones, the row
  is in placeholder 7, and the form is left as it is.
\<close>

theorem set_placeholder_id_counterexample:
  "set_placeholder_id (BaseContentItemFormSet_init ''en'' []) new_form = Inl DoesNotExist
   \<and> cleaned_placeholder_slot moved_form = Some ''main''
   \<and> cleaned_placeholder moved_form = Some old_placeholder
   \<and> ph_slot old_placeholder = ''main''
   \<and> ph_id old_placeholder \<in> set (deleted_placeholders example_formset)
   \<and> set_placeholder_id example_formset moved_form = Inr (example_formset, moved_form)
   \<and> row_placeholder (form_row moved_form) = Some sidebar_placeholder"
  by (simp add: set_placeholder_id_def desired_placeholder_def get_by_slot_def
      BaseContentItemFormSet_init_def new_form_def moved_form_def old_placeholder_def
      example_formset_def)


section \<open>Theorems about the inline classes\<close>

lemma create_inline_for_plugin_ok:
  "is_plugin obj \<Longrightarrow> \<exists>c. create_inline_for_plugin obj base = Inr c"
  by (cases obj) (simp_all add: is_plugin_def create_inline_for_plugin_def get_content_item_admin_options_def)

lemma create_child_inlines_ok:
  "\<forall>obj \<in> set plugins. is_plugin obj \<Longrightarrow>
   \<exists>cs. create_child_inlines base plugins acc = Inr (acc @ cs)
      \<and> map (\<lambda>obj. create_inline_for_plugin obj base) plugins = map Inr cs"
proof (induction plugins arbitrary: acc)
  case Nil
  show ?case by simp
next
  case (Cons obj plugins)
  from Cons.prems create_inline_for_plugin_ok [of obj base]
  obtain c where c: "create_inline_for_plugin obj base = Inr c" by auto
  from Cons.prems have "\<forall>obj \<in> set plugins. is_plugin obj" by simp
  from Cons.IH [OF this, of "acc @ [c]"] obtain cs where
    "create_child_inlines base plugins (acc @ [c]) = Inr ((acc @ [c]) @ cs)"
    "map (\<lambda>obj. create_inline_for_plugin obj base) plugins = map Inr cs" by blast
  then have "create_child_inlines base (obj # plugins) acc = Inr (acc @ (c # cs))
      \<and> map (\<lambda>obj. create_inline_for_plugin obj base) (obj # plugins) = map Inr (c # cs)"
    using c by simp
  then show ?case by blast
qed

text \<open>
  C7. For a list of plugins, given or, when the argument is \<^verbatim>\<open>None\<close>, the registered ones,
  \<^verbatim>\<open>get_content_item_inlines\<close> returns a list of one parent inline class, derived from
  \<^verbatim>\<open>parent_base\<close>; its \<^verbatim>\<open>model\<close> is \<^verbatim>\<open>ContentItem\<close>, its \<^verbatim>\<open>plugins\<close> are the plugin list, and its
  \<^verbatim>\<open>child_inlines\<close> hold one class per plugin, in the order of the plugins: the class
  \<^verbatim>\<open>create_inline_for_plugin\<close> makes for that plugin with \<^verbatim>\<open>child_base\<close> as its base.
\<close>

theorem get_content_item_inlines_one_parent:
  assumes "plugins = (case plugins_arg of None \<Rightarrow> plugin_pool | Some ps \<Rightarrow> ps)"
    and "\<forall>obj \<in> set plugins. is_plugin obj"
  shows "\<exists>cls. get_content_item_inlines plugin_pool plugins_arg parent_base child_base = Inr [cls]
       \<and> inline_model cls = ''ContentItem''
       \<and> inline_plugins cls = plugins
       \<and> parent_class_base cls = parent_base
       \<and> length (child_inlines cls) = length plugins
       \<and> (\<forall>i < length plugins.
            create_inline_for_plugin (plugins ! i) child_base = Inr (child_inlines cls ! i)
          \<and> child_class_base (child_inlines cls ! i) = child_base
          \<and> (\<exists>p. plugins ! i = ContentPlugin p \<and> attr_plugin (child_attrs (child_inlines cls ! i)) = p
                 \<and> attr_model (child_attrs (child_inlines cls ! i)) = plugin_model p))"
proof -
  from create_child_inlines_ok [OF assms(2), of child_base "[]"] obtain cs where
    run: "create_child_inlines child_base plugins [] = Inr cs"
    and each: "map (\<lambda>obj. create_inline_for_plugin obj child_base) plugins = map Inr cs"
    by auto
  from each have len: "length cs = length plugins" by (metis length_map)
  have nth: "create_inline_for_plugin (plugins ! i) child_base = Inr (cs ! i)" if "i < length plugins" for i
    using that each len by (metis nth_map)
  have det: "child_class_base (cs ! i) = child_base
          \<and> (\<exists>p. plugins ! i = ContentPlugin p \<and> attr_plugin (child_attrs (cs ! i)) = p
                 \<and> attr_model (child_attrs (cs ! i)) = plugin_model p)" if "i < length plugins" for i
  proof -
    from that assms(2) have "is_plugin (plugins ! i)" by simp
    then obtain p where p: "plugins ! i = ContentPlugin p" by (cases "plugins ! i") (simp_all add: is_plugin_def)
    from nth [OF that, symmetric] p show ?thesis
      by (simp add: create_inline_for_plugin_def get_content_item_admin_options_def)
  qed
  have "get_content_item_inlines plugin_pool plugins_arg parent_base child_base =
          Inr [\<lparr>parent_class_name = ''ContentItemParentInline'', parent_class_base = parent_base,
                inline_model = ''ContentItem'', inline_plugins = plugins, child_inlines = cs\<rparr>]"
    using run assms(1) by (simp add: get_content_item_inlines_def)
  with len nth det show ?thesis by simp
qed


theorem get_content_item_inlines_one_parent_witness:
  "is_plugin (ContentPlugin gist_plugin)
   \<and> (\<exists>cls. get_content_item_inlines [] (Some [ContentPlugin gist_plugin])
               ''BaseContentItemParentInline'' ''BaseContentItemChildInline'' = Inr [cls]
          \<and> inline_model cls = ''ContentItem''
          \<and> inline_plugins cls = [ContentPlugin gist_plugin]
          \<and> length (child_inlines cls) = length [ContentPlugin gist_plugin]
          \<and> child_class_name (child_inlines cls ! 0) = ''GistItem_AutoChildInline''
          \<and> child_class_base (child_inlines cls ! 0) = ''BaseContentItemChildInline''
          \<and> attr_plugin (child_attrs (child_inlines cls ! 0)) = gist_plugin)
   \<and> (\<exists>cls. get_content_item_inlines [ContentPlugin gist_plugin] None
               ''BaseContentItemParentInline'' ''BaseContentItemChildInline'' = Inr [cls]
          \<and> inline_plugins cls = [ContentPlugin gist_plugin])"
proof -
  have pl: "is_plugin (ContentPlugin gist_plugin)" by (simp add: is_plugin_def)
  have all: "\<forall>obj \<in> set [ContentPlugin gist_plugin]. is_plugin obj" using pl by simp
  have arg: "[ContentPlugin gist_plugin] =
               (case Some [ContentPlugin gist_plugin] of None \<Rightarrow> [] | Some ps \<Rightarrow> ps)"
    by simp
  have pool: "[ContentPlugin gist_plugin] =
               (case None of None \<Rightarrow> [ContentPlugin gist_plugin] | Some ps \<Rightarrow> ps)"
    by simp
  have made: "create_inline_for_plugin (ContentPlugin gist_plugin) ''BaseContentItemChildInline'' = Inr c
              \<Longrightarrow> child_class_name c = ''GistItem_AutoChildInline''" for c
    by (auto simp: create_inline_for_plugin_def get_content_item_admin_options_def gist_plugin_def)
  from get_content_item_inlines_one_parent
    [where plugins = "[ContentPlugin gist_plugin]" and plugins_arg = "Some [ContentPlugin gist_plugin]"
       and plugin_pool = "[]" and parent_base = "''BaseContentItemParentInline''"
       and child_base = "''BaseContentItemChildInline''", OF arg all]
  obtain cls where
    r: "get_content_item_inlines [] (Some [ContentPlugin gist_plugin])
          ''BaseContentItemParentInline'' ''BaseContentItemChildInline'' = Inr [cls]"
    and m: "inline_model cls = ''ContentItem''"
    and p: "inline_plugins cls = [ContentPlugin gist_plugin]"
    and l: "length (child_inlines cls) = length [ContentPlugin gist_plugin]"
    and c: "\<forall>i < length [ContentPlugin gist_plugin].
              create_inline_for_plugin ([ContentPlugin gist_plugin] ! i) ''BaseContentItemChildInline''
                = Inr (child_inlines cls ! i)
            \<and> child_class_base (child_inlines cls ! i) = ''BaseContentItemChildInline''
            \<and> (\<exists>p. [ContentPlugin gist_plugin] ! i = ContentPlugin p
                   \<and> attr_plugin (child_attrs (child_inlines cls ! i)) = p
                   \<and> attr_model (child_attrs (child_inlines cls ! i)) = plugin_model p)"
    by blast
  from c [rule_format, of 0] have
    c0: "create_inline_for_plugin (ContentPlugin gist_plugin) ''BaseContentItemChildInline''
           = Inr (child_inlines cls ! 0)"
    and b0: "child_class_base (child_inlines cls ! 0) = ''BaseContentItemChildInline''"
    and p0: "attr_plugin (child_attrs (child_inlines cls ! 0)) = gist_plugin"
    by simp_all
  have first: "\<exists>cls. get_content_item_inlines [] (Some [ContentPlugin gist_plugin])
               ''BaseContentItemParentInline'' ''BaseContentItemChildInline'' = Inr [cls]
          \<and> inline_model cls = ''ContentItem''
          \<and> inline_plugins cls = [ContentPlugin gist_plugin]
          \<and> length (child_inlines cls) = length [ContentPlugin gist_plugin]
          \<and> child_class_name (child_inlines cls ! 0) = ''GistItem_AutoChildInline''
          \<and> child_class_base (child_inlines cls ! 0) = ''BaseContentItemChildInline''
          \<and> attr_plugin (child_attrs (child_inlines cls ! 0)) = gist_plugin"
    using r m p l made [OF c0] b0 p0 by blast
  from get_content_item_inlines_one_parent
    [where plugins = "[ContentPlugin gist_plugin]" and plugins_arg = None
       and plugin_pool = "[ContentPlugin gist_plugin]"
       and parent_base = "''BaseContentItemParentInline''"
       and child_base = "''BaseContentItemChildInline''", OF pool all]
  have second: "\<exists>cls. get_content_item_inlines [ContentPlugin gist_plugin] None
               ''BaseContentItemParentInline'' ''BaseContentItemChildInline'' = Inr [cls]
          \<and> inline_plugins cls = [ContentPlugin gist_plugin]"
    by blast
  from pl first second show ?thesis by blast
qed


end
